theory Spec2Isabelle
  imports Main "HOL-Library.Sublist"
begin

section \<open>JavaScript values used by the client\<close>

text \<open>
  A JavaScript string is modelled as a \<open>string\<close>, one \<open>char\<close> per code unit.
  An \<open>Error\<close> object is the pair of its \<open>name\<close> and \<open>message\<close> properties, the only
  ones the client reads.  A promise is either still pending or settled, and it settles
  at most once.
\<close>

record js_error =
  err_name :: string
  err_message :: string

datatype 'v settled = Fulfilled 'v | Rejected js_error

definition new_Error :: "string \<Rightarrow> js_error" where
  "new_Error msg = \<lparr>err_name = ''Error'', err_message = msg\<rparr>"

text \<open>\<open>String.prototype.includes\<close>: the argument occurs somewhere in the string.\<close>

fun js_includes :: "string \<Rightarrow> string \<Rightarrow> bool" where
  "js_includes [] sub = (sub = [])"
| "js_includes (c # cs) sub = (prefix sub (c # cs) \<or> js_includes cs sub)"

section \<open>RequestManager\<close>

text \<open>
  \<open>CONFIG.API.timeout\<close>, the default of \<open>options.timeout || CONFIG.API.timeout\<close>.
\<close>

definition CONFIG_API_timeout :: nat where
  "CONFIG_API_timeout = 15000"

text \<open>
  Every call of \<open>makeRequest\<close> that does not return early creates an
  \<open>AbortController\<close>, a timer, and the promise \<open>requestPromise\<close> of
  \<open>executeRequest\<close>.  One \<open>pending_call\<close> holds these: whether the timer is still
  scheduled, whether the signal was aborted, how \<open>requestPromise\<close> has settled (if it
  has), and how often the \<open>finally\<close> block of this call has been executed.  Promises
  are identified by the index of their call in \<open>calls\<close>.  \<open>invocations\<close> logs every
  invocation of a \<open>requestFn\<close>.
\<close>

record ('op, 'v) pending_call =
  call_key :: string
  call_fn :: 'op
  timeout_ms :: nat
  timer_armed :: bool
  aborted :: bool
  outcome :: "'v settled option"
  finally_runs :: nat

record ('op, 'v) request_manager =
  activeRequests :: "string \<rightharpoonup> nat"
  calls :: "('op, 'v) pending_call list"
  invocations :: "'op list"

definition new_RequestManager :: "('op, 'v) request_manager" where
  "new_RequestManager = \<lparr>activeRequests = Map.empty, calls = [], invocations = []\<rparr>"

text \<open>
  \<open>makeRequest(key, requestFn, options)\<close> up to its \<open>await\<close>.  The result is the
  promise whose outcome the caller receives: the stored one when the key is active,
  otherwise the new \<open>requestPromise\<close> (the \<open>try\<close> block returns its value and
  re-throws its error unchanged).  \<open>options.timeout\<close> is \<open>None\<close> when absent; an
  absent or zero timeout is falsy and replaced by the default.
\<close>

definition makeRequest ::
  "('op, 'v) request_manager \<Rightarrow> string \<Rightarrow> 'op \<Rightarrow> nat option \<Rightarrow> nat \<times> ('op, 'v) request_manager"
where
  "makeRequest rm key requestFn opt_timeout =
     (case activeRequests rm key of
        Some p \<Rightarrow> (p, rm)
      | None \<Rightarrow>
          let timeout = (case opt_timeout of
                           None \<Rightarrow> CONFIG_API_timeout
                         | Some t \<Rightarrow> if t = 0 then CONFIG_API_timeout else t);
              p = length (calls rm);
              c = \<lparr>call_key = key, call_fn = requestFn, timeout_ms = timeout,
                   timer_armed = True, aborted = False, outcome = None, finally_runs = 0\<rparr>
          in (p, rm\<lparr>activeRequests := (activeRequests rm)(key \<mapsto> p),
                     calls := calls rm @ [c],
                     invocations := invocations rm @ [requestFn]\<rparr>))"

text \<open>
  The \<open>catch\<close> block of \<open>executeRequest\<close>: how the settlement of \<open>requestFn(signal)\<close>
  becomes the settlement of \<open>requestPromise\<close>.
\<close>

definition executeRequest :: "'v settled \<Rightarrow> 'v settled" where
  "executeRequest r =
     (case r of
        Fulfilled v \<Rightarrow> Fulfilled v
      | Rejected e \<Rightarrow>
          if err_name e = ''AbortError'' then Rejected (new_Error ''timeout'')
          else if err_message e \<noteq> [] \<and> js_includes (err_message e) ''Failed to fetch''
            then Rejected (new_Error ''network'')
          else Rejected e)"

text \<open>
  The promise of \<open>requestFn(signal)\<close> of call \<open>p\<close> settles with \<open>r\<close>.
  \<open>executeRequest\<close> clears the timer and settles \<open>requestPromise\<close>; the creating
  \<open>makeRequest\<close> resumes after its \<open>await\<close> and runs its \<open>finally\<close> block, which
  clears the timer again and deletes the key.  A promise that has settled stays as it is.
\<close>

definition operation_settles ::
  "('op, 'v) request_manager \<Rightarrow> nat \<Rightarrow> 'v settled \<Rightarrow> ('op, 'v) request_manager"
where
  "operation_settles rm p r =
     (if p < length (calls rm) \<and> outcome (calls rm ! p) = None then
        let c = calls rm ! p in
        rm\<lparr>calls := (calls rm)[p := c\<lparr>timer_armed := False,
                                       outcome := Some (executeRequest r),
                                       finally_runs := finally_runs c + 1\<rparr>],
           activeRequests := (activeRequests rm)(call_key c := None)\<rparr>
      else rm)"

text \<open>
  The timer of call \<open>p\<close> expires: its callback runs \<open>controller.abort()\<close>.  A timer
  that was cleared does not fire.
\<close>

definition timer_fires :: "('op, 'v) request_manager \<Rightarrow> nat \<Rightarrow> ('op, 'v) request_manager" where
  "timer_fires rm p =
     (if p < length (calls rm) \<and> timer_armed (calls rm ! p) then
        rm\<lparr>calls := (calls rm)[p := (calls rm ! p)\<lparr>timer_armed := False, aborted := True\<rparr>]\<rparr>
      else rm)"

definition cancelAllRequests :: "('op, 'v) request_manager \<Rightarrow> ('op, 'v) request_manager" where
  "cancelAllRequests rm = rm\<lparr>activeRequests := Map.empty\<rparr>"

text \<open>What can happen to a request manager, and a run of such events in order.\<close>

datatype ('op, 'v) rm_event =
    Submit string 'op "nat option"
  | Settles nat "'v settled"
  | TimerFires nat
  | CancelAll

fun rm_step :: "('op, 'v) request_manager \<Rightarrow> ('op, 'v) rm_event \<Rightarrow> ('op, 'v) request_manager" where
  "rm_step rm (Submit key fn opt) = snd (makeRequest rm key fn opt)"
| "rm_step rm (Settles p r) = operation_settles rm p r"
| "rm_step rm (TimerFires p) = timer_fires rm p"
| "rm_step rm CancelAll = cancelAllRequests rm"

definition rm_run :: "('op, 'v) request_manager \<Rightarrow> ('op, 'v) rm_event list \<Rightarrow> ('op, 'v) request_manager" where
  "rm_run rm es = foldl rm_step rm es"

text \<open>
  Every entry of \<open>activeRequests\<close> is the promise of a call made under that key whose
  operation has not settled.
\<close>

definition entries_pending :: "('op, 'v) request_manager \<Rightarrow> bool" where
  "entries_pending rm \<longleftrightarrow>
     (\<forall>k p. activeRequests rm k = Some p \<longrightarrow>
        p < length (calls rm) \<and> call_key (calls rm ! p) = k \<and> outcome (calls rm ! p) = None)"

text \<open>
  The \<open>finally\<close> block of a call has run once if its promise has settled and not at
  all otherwise, a settled call has no timer left, and the log of invocations has one
  entry per call.
\<close>

definition cleanup_once :: "('op, 'v) request_manager \<Rightarrow> bool" where
  "cleanup_once rm \<longleftrightarrow>
     (\<forall>c \<in> set (calls rm).
        finally_runs c = (if outcome c = None then 0 else 1) \<and>
        (outcome c \<noteq> None \<longrightarrow> \<not> timer_armed c)) \<and>
     invocations rm = map call_fn (calls rm)"

section \<open>Strings and numbers\<close>

text \<open>
  \<open>String.prototype.trim\<close> removes white space and line terminators from both ends.
  Of the code units JavaScript strips, these are the ones below 256.
\<close>

definition isWhiteSpace :: "char \<Rightarrow> bool" where
  "isWhiteSpace c \<longleftrightarrow> c \<in> {CHR 0x09, CHR 0x0A, CHR 0x0B, CHR 0x0C, CHR 0x0D, CHR 0x20, CHR 0xA0}"

definition js_trim :: "string \<Rightarrow> string" where
  "js_trim s = rev (dropWhile isWhiteSpace (rev (dropWhile isWhiteSpace s)))"

text \<open>
  The string of an integral number, as string concatenation and template literals
  produce it for the two numbers the client itself puts into strings: \<open>Date.now()\<close>,
  an integer of at most 16 digits, and \<open>res.status\<close>, of three digits.  In that
  range the string is the decimal digits, with a minus sign for a negative number.
\<close>

definition digit_char :: "nat \<Rightarrow> char" where
  "digit_char d = ''0123456789'' ! d"

function show_nat :: "nat \<Rightarrow> string" where
  "show_nat n = (if n < 10 then [digit_char n] else show_nat (n div 10) @ [digit_char (n mod 10)])"
  by pat_completeness auto
termination
  by (relation "measure id") auto

declare show_nat.simps [simp del]

definition Number_toString :: "int \<Rightarrow> string" where
  "Number_toString i = (if i < 0 then CHR ''-'' # show_nat (nat (- i)) else show_nat (nat i))"

text \<open>
  The values \<open>res.json()\<close> can produce, and \<open>undefined\<close>.  The client never
  computes with a number of a response: it only converts it to a string and tests
  whether it is falsy.  So a number is represented by these two observations, the
  string that JavaScript converts it to and whether it is \<open>0\<close> or \<open>NaN\<close>.  An object
  is the list of its properties.
\<close>

datatype jsval =
    JUndefined
  | JNull
  | JBool bool
  | JNum string bool
  | JStr string
  | JArr "jsval list"
  | JObj "(string \<times> jsval) list"

text \<open>Joining strings with a separator, as \<open>Array.prototype.join\<close> does.\<close>

fun join :: "string \<Rightarrow> string list \<Rightarrow> string" where
  "join sep [] = []"
| "join sep [x] = x"
| "join sep (x # y # ys) = x @ sep @ join sep (y # ys)"

text \<open>
  The string a template literal \<open>`${v}`\<close> inserts.  An array is the join of its
  elements, where \<open>null\<close> and \<open>undefined\<close> elements are empty.
\<close>

fun ToString :: "jsval \<Rightarrow> string" where
  "ToString JUndefined = ''undefined''"
| "ToString JNull = ''null''"
| "ToString (JBool b) = (if b then ''true'' else ''false'')"
| "ToString (JNum digits zero) = digits"
| "ToString (JStr s) = s"
| "ToString (JArr xs) =
     join '','' (map (\<lambda>x. if x = JUndefined \<or> x = JNull then [] else ToString x) xs)"
| "ToString (JObj props) = ''[object Object]''"

text \<open>The values that count as false in \<open>a || b\<close>.\<close>

fun falsy :: "jsval \<Rightarrow> bool" where
  "falsy JUndefined = True"
| "falsy JNull = True"
| "falsy (JBool b) = (\<not> b)"
| "falsy (JNum digits zero) = zero"
| "falsy (JStr s) = (s = [])"
| "falsy (JArr xs) = False"
| "falsy (JObj props) = False"

text \<open>
  Reading a property \<open>v.prop\<close>, for the property names the client reads (\<open>detail\<close>,
  \<open>response\<close>, \<open>content\<close>, \<open>transcription\<close>): a \<open>TypeError\<close> on \<open>undefined\<close> and
  \<open>null\<close>, the property or \<open>undefined\<close> on an object, \<open>undefined\<close> on every other
  value.  The message of the \<open>TypeError\<close> has the wording of V8.
\<close>

definition get_prop :: "jsval \<Rightarrow> string \<Rightarrow> js_error + jsval" where
  "get_prop v prop =
     (case v of
        JUndefined \<Rightarrow> Inl \<lparr>err_name = ''TypeError'',
          err_message = ''Cannot read properties of undefined (reading '' @ [CHR 0x27] @ prop @ [CHR 0x27] @ '')''\<rparr>
      | JNull \<Rightarrow> Inl \<lparr>err_name = ''TypeError'',
          err_message = ''Cannot read properties of null (reading '' @ [CHR 0x27] @ prop @ [CHR 0x27] @ '')''\<rparr>
      | JObj props \<Rightarrow> (case map_of props prop of None \<Rightarrow> Inr JUndefined | Some x \<Rightarrow> Inr x)
      | _ \<Rightarrow> Inr JUndefined)"

section \<open>Messages and requests\<close>

text \<open>
  A message of the session.  \<open>originalMessage\<close>, \<open>msg_error\<close> and \<open>canRetry\<close> are the
  optional properties that \<open>retryMessage\<close> and \<open>renderMessage\<close> read; a message that
  lacks them has \<open>None\<close> and \<open>False\<close>.
\<close>

record message =
  msg_id :: nat
  msg_type :: string
  content :: string
  timestamp :: int
  originalMessage :: "string option"
  msg_error :: bool
  canRetry :: bool

record js_file =
  file_name :: string
  file_size :: nat
  file_type :: string

record history_entry =
  role :: string
  entry_content :: string
  entry_timestamp :: int

record chat_request =
  model_id :: string
  req_message :: string
  conversation_id :: string
  history :: "history_entry list"

text \<open>
  What a \<open>requestFn\<close> sends when it is invoked: the JSON body of the chat request, or
  the form data of the two multipart requests.
\<close>

datatype backend_op =
    ChatOp chat_request
  | UploadOp js_file string string
  | TranscribeOp js_file

text \<open>\<open>Array.prototype.slice(start)\<close> with one argument.\<close>

definition js_slice :: "'a list \<Rightarrow> int \<Rightarrow> 'a list" where
  "js_slice xs start =
     (let len = int (length xs);
          k = (if start < 0 then max (len + start) 0 else min start len)
      in drop (nat k) xs)"

text \<open>The predicate of the \<open>filter\<close> in \<open>callChatAPI\<close>, negated.\<close>

definition is_file_attachment :: "message \<Rightarrow> bool" where
  "is_file_attachment m \<longleftrightarrow> msg_type m = ''file-attachment''"

definition history_entry_of :: "message \<Rightarrow> history_entry" where
  "history_entry_of m = \<lparr>role = msg_type m, entry_content = content m, entry_timestamp = timestamp m\<rparr>"

definition chat_history :: "message list \<Rightarrow> history_entry list" where
  "chat_history msgs =
     map history_entry_of (js_slice (filter (\<lambda>m. \<not> is_file_attachment m) msgs) (- 10))"

section \<open>The responses of the backend\<close>

text \<open>
  What \<open>fetch\<close> gives a \<open>requestFn\<close>: a rejection (no connection, or the abort of
  the signal), or a response with its status, a number of three digits, and what
  \<open>res.json()\<close> makes of its body, which is the parsed value or the error of the
  parser.
\<close>

datatype http_result =
    FetchRejected js_error
  | Response nat "js_error + jsval"

definition res_ok :: "nat \<Rightarrow> bool" where
  "res_ok status \<longleftrightarrow> 200 \<le> status \<and> status \<le> 299"

text \<open>
  The \<open>if (!res.ok)\<close> block, the same in the three \<open>requestFn\<close>s: the error it
  throws.
\<close>

definition not_ok_error :: "nat \<Rightarrow> js_error + jsval \<Rightarrow> js_error" where
  "not_ok_error status body =
     (case body of
        Inl parse_error \<Rightarrow> parse_error
      | Inr errorData \<Rightarrow>
          (case get_prop errorData ''detail'' of
             Inl type_error \<Rightarrow> type_error
           | Inr detail \<Rightarrow>
               new_Error (''HTTP '' @ Number_toString (int status) @ '': '' @ ToString detail)))"

text \<open>How the promise of each \<open>requestFn\<close> settles, given what \<open>fetch\<close> gave it.\<close>

definition chat_requestFn :: "http_result \<Rightarrow> jsval settled" where
  "chat_requestFn h =
     (case h of
        FetchRejected e \<Rightarrow> Rejected e
      | Response status body \<Rightarrow>
          if \<not> res_ok status then Rejected (not_ok_error status body)
          else (case body of
                  Inl parse_error \<Rightarrow> Rejected parse_error
                | Inr data \<Rightarrow>
                    (case get_prop data ''response'' of
                       Inl e \<Rightarrow> Rejected e
                     | Inr r \<Rightarrow>
                         (case get_prop r ''content'' of
                            Inl e \<Rightarrow> Rejected e
                          | Inr c \<Rightarrow> Fulfilled (if falsy c then JStr ''No response received'' else c)))))"

definition upload_requestFn :: "http_result \<Rightarrow> jsval settled" where
  "upload_requestFn h =
     (case h of
        FetchRejected e \<Rightarrow> Rejected e
      | Response status body \<Rightarrow>
          if \<not> res_ok status then Rejected (not_ok_error status body)
          else (case body of Inl parse_error \<Rightarrow> Rejected parse_error | Inr data \<Rightarrow> Fulfilled data))"

definition transcribe_requestFn :: "http_result \<Rightarrow> jsval settled" where
  "transcribe_requestFn h = upload_requestFn h"

fun requestFn_settles :: "backend_op \<Rightarrow> http_result \<Rightarrow> jsval settled" where
  "requestFn_settles (ChatOp r) h = chat_requestFn h"
| "requestFn_settles (UploadOp f m i) h = upload_requestFn h"
| "requestFn_settles (TranscribeOp f) h = transcribe_requestFn h"

section \<open>The presenter of \<open>_streamMessage\<close>\<close>

text \<open>
  The closure of \<open>typeWriter\<close>: the message object it fills, \<open>fullContent\<close>, the index
  \<open>i\<close>, whether a call through \<open>requestAnimationFrame\<close> is outstanding, and how often
  \<open>resolve()\<close> has been called.
\<close>

record presenter =
  target :: message
  fullContent :: string
  idx :: nat
  frame_requested :: bool
  resolved :: nat

definition typeWriter :: "presenter \<Rightarrow> presenter" where
  "typeWriter p =
     (if idx p < length (fullContent p) then
        p\<lparr>target := (target p)\<lparr>content := content (target p) @ [fullContent p ! idx p]\<rparr>,
          idx := idx p + 1,
          frame_requested := True\<rparr>
      else p\<lparr>resolved := resolved p + 1\<rparr>)"

text \<open>The browser runs the requested callback, if there is one.\<close>

definition animation_frame :: "presenter \<Rightarrow> presenter" where
  "animation_frame p =
     (if frame_requested p then typeWriter (p\<lparr>frame_requested := False\<rparr>) else p)"

definition frames :: "nat \<Rightarrow> presenter \<Rightarrow> presenter" where
  "frames n p = (animation_frame ^^ n) p"

definition new_message :: "nat \<Rightarrow> string \<Rightarrow> string \<Rightarrow> int \<Rightarrow> message" where
  "new_message messageId type text now =
     \<lparr>msg_id = messageId, msg_type = type, content = text, timestamp = now,
      originalMessage = None, msg_error = False, canRetry = False\<rparr>"

text \<open>
  The presenter as \<open>_streamMessage\<close> leaves it when it returns its promise: the message
  is created with empty content and \<open>typeWriter\<close> has been called once.
\<close>

definition present :: "nat \<Rightarrow> string \<Rightarrow> string \<Rightarrow> int \<Rightarrow> presenter" where
  "present messageId type text now =
     typeWriter \<lparr>target = new_message messageId type [] now, fullContent = text, idx = 0,
                 frame_requested = False, resolved = 0\<rparr>"

section \<open>The chat application\<close>

text \<open>
  The item \<open>chatMessages\<close> of the store: text that \<open>JSON.parse\<close> rejects, or the
  message list it parses to.
\<close>

datatype stored_messages = Unparseable | Stored "message list"

text \<open>
  A presenter that has been started, and the place of the message object it fills:
  \<open>slot\<close> is the index of that object in \<open>this.messages\<close>, and \<open>None\<close> once the
  object is no longer in the list (the list was replaced, or the entry was spliced
  out).  The presenter and the list share the object, so what the presenter appends
  shows in the list.
\<close>

record running_presenter =
  slot :: "nat option"
  writer :: presenter

text \<open>
  The state of \<open>MohanAIChatApp\<close> that the send pipeline reads and writes.
  \<open>messageInput\<close> is \<open>None\<close> when the element is missing and its value otherwise;
  \<open>currentModel\<close> and \<open>models\<close> hold the \<open>id\<close> of each model; \<open>shownErrors\<close> lists the
  texts given to \<open>showError\<close>; \<open>presenters\<close> are the presenters started so far; the
  last two fields are the items of \<open>localStorage\<close>.
  The other elements of the page that the pipeline touches (the send button, the
  message container) are taken to exist.
\<close>

record app_state =
  messageInput :: "string option"
  currentModel :: "string option"
  models :: "string list"
  isLoading :: bool
  attachedFile :: "js_file option"
  messages :: "message list"
  messageIdCounter :: nat
  conversationId :: string
  requestManager :: "(backend_op, jsval) request_manager"
  sendBtn_disabled :: bool
  loadingTimer :: bool
  shownErrors :: "string list"
  presenters :: "running_presenter list"
  stored_selectedModel :: "string option"
  stored_chatMessages :: "stored_messages option"

text \<open>The state the constructor sets up, given the page and the store it runs in.\<close>

definition new_MohanAIChatApp ::
  "string option \<Rightarrow> string \<Rightarrow> string option \<Rightarrow> stored_messages option \<Rightarrow> app_state"
where
  "new_MohanAIChatApp input conv savedModel savedMessages =
     \<lparr>messageInput = input, currentModel = None, models = [], isLoading = False,
      attachedFile = None, messages = [], messageIdCounter = 0, conversationId = conv,
      requestManager = new_RequestManager, sendBtn_disabled = False, loadingTimer = False,
      shownErrors = [], presenters = [], stored_selectedModel = savedModel,
      stored_chatMessages = savedMessages\<rparr>"

text \<open>
  \<open>this.messages\<close> is set to another array: no presenter's object is in it.
\<close>

definition replace_messages :: "app_state \<Rightarrow> message list \<Rightarrow> app_state" where
  "replace_messages s ms =
     s\<lparr>messages := ms, presenters := map (\<lambda>r. r\<lparr>slot := None\<rparr>) (presenters s)\<rparr>"

text \<open>
  \<open>loadSavedState\<close>.  An item that is absent or empty is falsy and skipped.
\<close>

definition loadSavedState :: "app_state \<Rightarrow> app_state" where
  "loadSavedState s =
     (let s1 = (case stored_selectedModel s of
                  None \<Rightarrow> s
                | Some savedModelId \<Rightarrow>
                    if savedModelId \<noteq> [] \<and> savedModelId \<in> set (models s)
                    then s\<lparr>currentModel := Some savedModelId\<rparr> else s)
      in case stored_chatMessages s1 of
           None \<Rightarrow> s1
         | Some Unparseable \<Rightarrow> replace_messages s1 []
         | Some (Stored ms) \<Rightarrow> replace_messages s1 ms)"

definition saveState :: "app_state \<Rightarrow> app_state" where
  "saveState s =
     s\<lparr>stored_selectedModel :=
         (case currentModel s of None \<Rightarrow> stored_selectedModel s | Some m \<Rightarrow> Some m),
       stored_chatMessages := Some (Stored (messages s))\<rparr>"

definition updateSendButton :: "app_state \<Rightarrow> app_state" where
  "updateSendButton s =
     (case messageInput s of
        None \<Rightarrow> s
      | Some v \<Rightarrow>
          s\<lparr>sendBtn_disabled := \<not> (js_trim v \<noteq> [] \<or> attachedFile s \<noteq> None) \<or> isLoading s\<rparr>)"

definition showLoading :: "app_state \<Rightarrow> app_state" where
  "showLoading s =
     (if isLoading s then s
      else updateSendButton (s\<lparr>isLoading := True, loadingTimer := True\<rparr>))"

definition hideLoading :: "app_state \<Rightarrow> app_state" where
  "hideLoading s = updateSendButton (s\<lparr>isLoading := False, loadingTimer := False\<rparr>)"

definition showError :: "app_state \<Rightarrow> string \<Rightarrow> app_state" where
  "showError s text = s\<lparr>shownErrors := shownErrors s @ [text]\<rparr>"

definition addMessage :: "app_state \<Rightarrow> string \<Rightarrow> string \<Rightarrow> int \<Rightarrow> app_state" where
  "addMessage s type text now =
     (let messageId = messageIdCounter s + 1
      in s\<lparr>messageIdCounter := messageId,
           messages := messages s @ [new_message messageId type text now]\<rparr>)"

text \<open>
  \<open>_streamMessage\<close> as far as it runs before it returns: the counter is advanced, the
  message object is created empty and pushed, and \<open>typeWriter\<close> has made its first
  step on it.  The last entry of the list is that object, as the first step left it,
  and the presenter is recorded with the index of the entry.  The result is the state
  and the presenter.
\<close>

definition streamMessage :: "app_state \<Rightarrow> string \<Rightarrow> string \<Rightarrow> int \<Rightarrow> app_state \<times> presenter" where
  "streamMessage s type text now =
     (let messageId = messageIdCounter s + 1;
          pr = present messageId type text now
      in (s\<lparr>messageIdCounter := messageId,
            messages := messages s @ [target pr],
            presenters := presenters s @ [\<lparr>slot = Some (length (messages s)), writer = pr\<rparr>]\<rparr>,
          pr))"

text \<open>
  The browser runs the animation frame callback of the \<open>j\<close>-th presenter: the
  presenter makes its step, and the entry of the list that is its object shows it.
\<close>

definition presenter_frame :: "app_state \<Rightarrow> nat \<Rightarrow> app_state" where
  "presenter_frame s j =
     (if j < length (presenters s) then
        let r = presenters s ! j;
            w = animation_frame (writer r)
        in s\<lparr>presenters := (presenters s)[j := r\<lparr>writer := w\<rparr>],
             messages := (case slot r of
                            None \<Rightarrow> messages s
                          | Some k \<Rightarrow> (messages s)[k := target w])\<rparr>
      else s)"


definition clearChat :: "app_state \<Rightarrow> app_state" where
  "clearChat s = saveState ((replace_messages s [])\<lparr>attachedFile := None\<rparr>)"

text \<open>
  The listeners of the page that feed the pipeline: the user has changed the text of
  the input to \<open>v\<close>; the user has chosen or dropped a file.
\<close>

definition on_input :: "app_state \<Rightarrow> string \<Rightarrow> app_state" where
  "on_input s v =
     (case messageInput s of
        None \<Rightarrow> s
      | Some old \<Rightarrow> updateSendButton (s\<lparr>messageInput := Some v\<rparr>))"

definition on_file_chosen :: "app_state \<Rightarrow> js_file \<Rightarrow> app_state" where
  "on_file_chosen s f = updateSendButton (s\<lparr>attachedFile := Some f\<rparr>)"

text \<open>
  The request key of each backend call: a prefix and \<open>Date.now()\<close>.
\<close>

datatype endpoint = Chat | Upload | Transcribe

fun key_prefix :: "endpoint \<Rightarrow> string" where
  "key_prefix Chat = ''chat-''"
| "key_prefix Upload = ''upload-''"
| "key_prefix Transcribe = ''transcribe-''"

definition request_key :: "endpoint \<Rightarrow> int \<Rightarrow> string" where
  "request_key e now = key_prefix e @ Number_toString now"

text \<open>
  The three calls, up to their \<open>await\<close>: the promise each one waits for, and the state.
  They are called by \<open>sendMessage\<close> only, which has checked that a model is selected;
  \<open>modelId\<close> is the \<open>id\<close> of that model.
\<close>

definition chat_request_body :: "app_state \<Rightarrow> string \<Rightarrow> string \<Rightarrow> chat_request" where
  "chat_request_body s modelId text =
     \<lparr>model_id = modelId, req_message = text, conversation_id = conversationId s,
      history = chat_history (messages s)\<rparr>"

definition callChatAPI :: "app_state \<Rightarrow> string \<Rightarrow> string \<Rightarrow> int \<Rightarrow> nat \<times> app_state" where
  "callChatAPI s modelId text now =
     (let (p, rm) = makeRequest (requestManager s) (request_key Chat now)
                      (ChatOp (chat_request_body s modelId text)) None
      in (p, s\<lparr>requestManager := rm\<rparr>))"

definition callUploadAndChatAPI ::
  "app_state \<Rightarrow> string \<Rightarrow> js_file \<Rightarrow> string \<Rightarrow> int \<Rightarrow> nat \<times> app_state"
where
  "callUploadAndChatAPI s modelId file text now =
     (let (p, rm) = makeRequest (requestManager s) (request_key Upload now)
                      (UploadOp file text modelId) None
      in (p, s\<lparr>requestManager := rm\<rparr>))"

definition callTranscribeAPI :: "app_state \<Rightarrow> js_file \<Rightarrow> int \<Rightarrow> nat \<times> app_state" where
  "callTranscribeAPI s file now =
     (let (p, rm) = makeRequest (requestManager s) (request_key Transcribe now)
                      (TranscribeOp file) None
      in (p, s\<lparr>requestManager := rm\<rparr>))"

text \<open>
  A call of \<open>sendMessage\<close> that is suspended at its \<open>await\<close>: the promise it waits
  for and its local variables \<open>file\<close> and \<open>text\<close>.
\<close>

record pending_send =
  awaited :: nat
  sent_file :: "js_file option"
  sent_text :: string

text \<open>
  \<open>sendMessage\<close> up to its \<open>await\<close>.  \<open>label\<close> gives the content of the message that
  stands for an attached file, a template literal around \<open>file.name\<close> and
  \<open>formatFileSize(file.size)\<close>; the three times are what \<open>Date.now()\<close> returns for the
  file message, for the text message and for the request key.  Without a suspended
  call in the result, \<open>sendMessage\<close> has returned at one of its guards.
\<close>

definition sendMessage ::
  "(js_file \<Rightarrow> string) \<Rightarrow> app_state \<Rightarrow> int \<Rightarrow> int \<Rightarrow> int \<Rightarrow> app_state \<times> pending_send option"
where
  "sendMessage label s t_file t_text t_key =
     (case messageInput s of
        None \<Rightarrow> (s, None)
      | Some v \<Rightarrow>
          (case currentModel s of
             None \<Rightarrow> (s, None)
           | Some modelId \<Rightarrow>
               if isLoading s then (s, None)
               else
                 let text = js_trim v; file = attachedFile s in
                 if text = [] \<and> file = None then (s, None)
                 else
                   let s1 = s\<lparr>isLoading := True, sendBtn_disabled := True\<rparr>;
                       s2 = (case file of
                               None \<Rightarrow> s1
                             | Some f \<Rightarrow> addMessage s1 ''user'' (label f) t_file);
                       s3 = (if text \<noteq> [] then addMessage s2 ''user'' text t_text else s2);
                       s4 = showLoading (s3\<lparr>messageInput := Some [], attachedFile := None\<rparr>);
                       (p, s5) =
                         (case file of
                            None \<Rightarrow> callChatAPI s4 modelId text t_key
                          | Some f \<Rightarrow>
                              if prefix ''audio'' (file_type f)
                              then callTranscribeAPI (showLoading s4) f t_key
                              else callUploadAndChatAPI s4 modelId f text t_key)
                   in (s5, Some \<lparr>awaited = p, sent_file = file, sent_text = text\<rparr>)))"

definition ERROR_MESSAGES_timeout :: string where
  "ERROR_MESSAGES_timeout = ''Request timed out after 15 seconds. Please try again.''"

definition ERROR_MESSAGES_network :: string where
  "ERROR_MESSAGES_network = ''Unable to connect to backend. Please check your backend is running.''"

definition ERROR_MESSAGES_serverError :: string where
  "ERROR_MESSAGES_serverError = ''Backend server error. The response may be incomplete.''"

text \<open>The \<open>finally\<close> block of \<open>sendMessage\<close>.\<close>

definition sendMessage_finally :: "app_state \<Rightarrow> app_state" where
  "sendMessage_finally s = s\<lparr>isLoading := False, sendBtn_disabled := False\<rparr>"

text \<open>
  The \<open>catch\<close> block of \<open>sendMessage\<close>, followed by the \<open>finally\<close> block.
  \<open>error_text\<close> is the chain of tests that chooses \<open>errorMessage\<close> from the message
  of the error.  The errors that reach the block have no \<open>detail\<close> property, which
  the template literal renders as \<open>undefined\<close>.  Reading \<open>file.name\<close> without a file
  throws, and \<open>showError\<close> is not reached.
\<close>

definition error_text :: "string \<Rightarrow> string" where
  "error_text m =
     (if js_includes m ''400'' then ''Failed to process message. 400 Error: undefined''
      else if js_includes m ''405'' then
        ''Failed to process message. 405 Error: Method Not Allowed. This is likely a configuration issue.''
      else if js_includes m ''timeout'' then ERROR_MESSAGES_timeout
      else if js_includes m ''network'' then ERROR_MESSAGES_network
      else if js_includes m ''server'' then ERROR_MESSAGES_serverError
      else ''Sorry, an unexpected error occurred. Please try again.'')"

definition sendMessage_catch :: "app_state \<Rightarrow> pending_send \<Rightarrow> js_error \<Rightarrow> app_state" where
  "sendMessage_catch s ps e =
     (let s1 = hideLoading s;
          m = err_message e;
          errorMessage = error_text m
      in if js_includes m ''Audio transcription failed'' then
           (case sent_file ps of
              None \<Rightarrow> sendMessage_finally s1
            | Some f \<Rightarrow>
                sendMessage_finally
                  (showError s1 (''Failed to transcribe '' @ file_name f @ ''. Please try again.'')))
         else sendMessage_finally (showError s1 errorMessage))"

text \<open>
  How a suspended \<open>sendMessage\<close> goes on when its promise is fulfilled with \<open>v\<close>:
  it is finished (a transcription, or an error thrown on the way), or it waits for the
  presenter that \<open>_streamMessage\<close> has started.  Content that is not a string is
  outside the model.
\<close>

datatype send_progress = Finished app_state | Presenting app_state presenter | Unmodelled

definition present_content :: "app_state \<Rightarrow> jsval \<Rightarrow> int \<Rightarrow> send_progress" where
  "present_content s c now =
     (case c of
        JStr text \<Rightarrow> (let (s', pr) = streamMessage s ''ai'' text now in Presenting s' pr)
      | _ \<Rightarrow> Unmodelled)"

definition sendMessage_fulfilled :: "app_state \<Rightarrow> pending_send \<Rightarrow> jsval \<Rightarrow> int \<Rightarrow> send_progress" where
  "sendMessage_fulfilled s ps v now =
     (case sent_file ps of
        None \<Rightarrow> present_content s v now
      | Some f \<Rightarrow>
          if prefix ''audio'' (file_type f) then
            (case get_prop v ''transcription'' of
               Inl e \<Rightarrow> Finished (sendMessage_catch s ps e)
             | Inr t \<Rightarrow>
                 let s1 = updateSendButton (hideLoading s);
                     s2 = addMessage s1 ''ai'' (''**Transcription:** '' @ ToString t) now
                 in Finished (sendMessage_finally (s2\<lparr>isLoading := False, sendBtn_disabled := False\<rparr>)))
          else
            (case get_prop v ''response'' of
               Inl e \<Rightarrow> Finished (sendMessage_catch s ps e)
             | Inr r \<Rightarrow>
                 (case get_prop r ''content'' of
                    Inl e \<Rightarrow> Finished (sendMessage_catch s ps e)
                  | Inr c \<Rightarrow> present_content s c now)))"

text \<open>
  The promise of \<open>_streamMessage\<close> has resolved and \<open>sendMessage\<close> goes on behind its
  \<open>await\<close>: \<open>saveState\<close>, then the \<open>finally\<close> block.
\<close>

definition sendMessage_presented :: "app_state \<Rightarrow> app_state" where
  "sendMessage_presented s = sendMessage_finally (saveState s)"

text \<open>
  The backend answers the request of a suspended \<open>sendMessage\<close> and the answer is not
  a success: the \<open>requestFn\<close> settles, the request manager cleans up, and
  \<open>sendMessage\<close> resumes in its \<open>catch\<close> block with the error of \<open>requestPromise\<close>.
  \<open>None\<close> when the promise is not pending or is fulfilled.
\<close>

definition send_fails :: "app_state \<Rightarrow> pending_send \<Rightarrow> http_result \<Rightarrow> app_state option" where
  "send_fails s ps h =
     (let rm = requestManager s; p = awaited ps in
      if p < length (calls rm) \<and> outcome (calls rm ! p) = None then
        (let rm' = operation_settles rm p (requestFn_settles (call_fn (calls rm ! p)) h)
         in case outcome (calls rm' ! p) of
              Some (Rejected e) \<Rightarrow> Some (sendMessage_catch (s\<lparr>requestManager := rm'\<rparr>) ps e)
            | _ \<Rightarrow> None)
      else None)"



text \<open>
  The ids of the session's messages increase strictly, start at 1 and do not exceed the
  counter.
\<close>

definition ids_increasing :: "app_state \<Rightarrow> bool" where
  "ids_increasing s \<longleftrightarrow>
     sorted_wrt (<) (map msg_id (messages s)) \<and>
     (\<forall>m \<in> set (messages s). 1 \<le> msg_id m \<and> msg_id m \<le> messageIdCounter s)"

text \<open>
  An event takes the entry of a key away when it is \<open>cancelAllRequests\<close>, or the
  settling of a call that was made under that key and has not settled before.  A run
  of events leaves the key undisturbed when none of its events does that.
\<close>

fun disturbs :: "('op, 'v) request_manager \<Rightarrow> string \<Rightarrow> ('op, 'v) rm_event \<Rightarrow> bool" where
  "disturbs rm key CancelAll = True"
| "disturbs rm key (Settles p r) =
     (p < length (calls rm) \<and> outcome (calls rm ! p) = None \<and> call_key (calls rm ! p) = key)"
| "disturbs rm key (Submit k fn opt) = False"
| "disturbs rm key (TimerFires p) = False"

fun undisturbed :: "('op, 'v) request_manager \<Rightarrow> string \<Rightarrow> ('op, 'v) rm_event list \<Rightarrow> bool" where
  "undisturbed rm key [] = True"
| "undisturbed rm key (e # es) = (\<not> disturbs rm key e \<and> undisturbed (rm_step rm e) key es)"

section \<open>Properties of the request manager\<close>

lemma entries_pending_new: "entries_pending new_RequestManager"
  by (simp add: entries_pending_def new_RequestManager_def)

lemma entries_pending_makeRequest:
  assumes "entries_pending rm"
  shows "entries_pending (snd (makeRequest rm key fn opt))"
proof (cases "activeRequests rm key")
  case None
  with assms show ?thesis
    by (fastforce simp: entries_pending_def makeRequest_def Let_def nth_append less_Suc_eq)
next
  case (Some p)
  with assms show ?thesis by (simp add: makeRequest_def)
qed

lemma entries_pending_settles:
  assumes "entries_pending rm"
  shows "entries_pending (operation_settles rm p r)"
  using assms
  by (auto simp: entries_pending_def operation_settles_def Let_def nth_list_update)

lemma entries_pending_timer:
  assumes "entries_pending rm"
  shows "entries_pending (timer_fires rm p)"
  using assms
  by (auto simp: entries_pending_def timer_fires_def nth_list_update)

lemma entries_pending_cancel: "entries_pending (cancelAllRequests rm)"
  by (simp add: entries_pending_def cancelAllRequests_def)

lemma entries_pending_step: "entries_pending rm \<Longrightarrow> entries_pending (rm_step rm e)"
  by (cases e)
     (simp_all add: entries_pending_makeRequest entries_pending_settles
        entries_pending_timer entries_pending_cancel)

lemma entries_pending_run: "entries_pending rm \<Longrightarrow> entries_pending (rm_run rm es)"
  unfolding rm_run_def
  by (induction es arbitrary: rm) (simp_all add: entries_pending_step)

lemma cleanup_once_new: "cleanup_once new_RequestManager"
  by (simp add: cleanup_once_def new_RequestManager_def)

lemma cleanup_once_makeRequest:
  assumes "cleanup_once rm"
  shows "cleanup_once (snd (makeRequest rm key fn opt))"
  using assms
  by (cases "activeRequests rm key") (auto simp: cleanup_once_def makeRequest_def Let_def)

lemma cleanup_once_settles:
  assumes "cleanup_once rm"
  shows "cleanup_once (operation_settles rm p r)"
proof (cases "p < length (calls rm) \<and> outcome (calls rm ! p) = None")
  case False
  with assms show ?thesis by (auto simp: operation_settles_def)
next
  case True
  let ?c = "calls rm ! p"
  let ?c' = "?c\<lparr>timer_armed := False, outcome := Some (executeRequest r),
                finally_runs := finally_runs ?c + 1\<rparr>"
  from True assms have fr: "finally_runs ?c = 0"
    by (auto simp: cleanup_once_def dest: nth_mem)
  have sub: "set ((calls rm)[p := ?c']) \<subseteq> insert ?c' (set (calls rm))"
    by (rule set_update_subset_insert)
  have "map call_fn ((calls rm)[p := ?c']) = map call_fn (calls rm)"
    using True by (simp add: map_update list_update_same_conv)
  with True assms fr sub show ?thesis
    by (auto simp: cleanup_once_def operation_settles_def Let_def)
qed

lemma cleanup_once_timer:
  assumes "cleanup_once rm"
  shows "cleanup_once (timer_fires rm p)"
proof (cases "p < length (calls rm) \<and> timer_armed (calls rm ! p)")
  case False
  with assms show ?thesis by (auto simp: timer_fires_def)
next
  case True
  let ?c = "calls rm ! p"
  let ?c' = "?c\<lparr>timer_armed := False, aborted := True\<rparr>"
  have mem: "?c \<in> set (calls rm)" using True by simp
  have sub: "set ((calls rm)[p := ?c']) \<subseteq> insert ?c' (set (calls rm))"
    by (rule set_update_subset_insert)
  have "map call_fn ((calls rm)[p := ?c']) = map call_fn (calls rm)"
    using True by (simp add: map_update list_update_same_conv)
  with True assms mem sub show ?thesis
    by (auto simp: cleanup_once_def timer_fires_def)
qed

lemma cleanup_once_cancel: "cleanup_once rm \<Longrightarrow> cleanup_once (cancelAllRequests rm)"
  by (simp add: cleanup_once_def cancelAllRequests_def)

lemma cleanup_once_step: "cleanup_once rm \<Longrightarrow> cleanup_once (rm_step rm e)"
  by (cases e)
     (simp_all add: cleanup_once_makeRequest cleanup_once_settles
        cleanup_once_timer cleanup_once_cancel)

lemma cleanup_once_run: "cleanup_once rm \<Longrightarrow> cleanup_once (rm_run rm es)"
  unfolding rm_run_def
  by (induction es arbitrary: rm) (simp_all add: cleanup_once_step)


text \<open>
  C2.  In every state the manager can reach: the \<open>finally\<close> block of a call has run
  exactly once if its promise has settled and not at all before, and a settled call
  has no timer left; whenever the operation of a pending call settles, with whatever
  result (a value, an error of the operation, the \<open>AbortError\<close> of a timeout or
  cancellation), that step leaves the call's key without an entry, the timer cleared
  and the \<open>finally\<close> block run once; and once every submitted operation has settled,
  \<open>activeRequests\<close> is empty.
\<close>

theorem makeRequest_cleanup_on_every_exit:
  "(let rm = rm_run new_RequestManager es in
      (\<forall>c \<in> set (calls rm).
         finally_runs c = (if outcome c = None then 0 else 1) \<and>
         (outcome c \<noteq> None \<longrightarrow> \<not> timer_armed c)) \<and>
      (\<forall>p r. p < length (calls rm) \<and> outcome (calls rm ! p) = None \<longrightarrow>
         (let rm' = operation_settles rm p r; c' = calls rm' ! p
          in activeRequests rm' (call_key c') = None \<and> \<not> timer_armed c' \<and>
             finally_runs c' = 1 \<and> outcome c' = Some (executeRequest r))) \<and>
      ((\<forall>c \<in> set (calls rm). outcome c \<noteq> None) \<longrightarrow> activeRequests rm = Map.empty))"
proof -
  let ?rm = "rm_run new_RequestManager es"
  have once: "cleanup_once ?rm"
    by (rule cleanup_once_run [OF cleanup_once_new])
  have pend: "entries_pending ?rm"
    by (rule entries_pending_run [OF entries_pending_new])
  have a: "\<forall>c \<in> set (calls ?rm).
         finally_runs c = (if outcome c = None then 0 else 1) \<and>
         (outcome c \<noteq> None \<longrightarrow> \<not> timer_armed c)"
    using once unfolding cleanup_once_def by blast
  have b: "\<forall>p r. p < length (calls ?rm) \<and> outcome (calls ?rm ! p) = None \<longrightarrow>
         (let rm' = operation_settles ?rm p r; c' = calls rm' ! p
          in activeRequests rm' (call_key c') = None \<and> \<not> timer_armed c' \<and>
             finally_runs c' = 1 \<and> outcome c' = Some (executeRequest r))"
  proof (intro allI impI)
    fix p r
    assume h: "p < length (calls ?rm) \<and> outcome (calls ?rm ! p) = None"
    then have "calls ?rm ! p \<in> set (calls ?rm)" by simp
    with a h have "finally_runs (calls ?rm ! p) = 0" by auto
    with h show "let rm' = operation_settles ?rm p r; c' = calls rm' ! p
          in activeRequests rm' (call_key c') = None \<and> \<not> timer_armed c' \<and>
             finally_runs c' = 1 \<and> outcome c' = Some (executeRequest r)"
      by (simp add: operation_settles_def Let_def)
  qed
  have c: "(\<forall>c \<in> set (calls ?rm). outcome c \<noteq> None) \<longrightarrow> activeRequests ?rm = Map.empty"
  proof
    assume all: "\<forall>c \<in> set (calls ?rm). outcome c \<noteq> None"
    show "activeRequests ?rm = Map.empty"
    proof (rule ext)
      fix k
      show "activeRequests ?rm k = None"
      proof (cases "activeRequests ?rm k")
        case None
        then show ?thesis .
      next
        case (Some p)
        with pend have "p < length (calls ?rm)" and "outcome (calls ?rm ! p) = None"
          unfolding entries_pending_def by blast+
        with all show ?thesis by (metis nth_mem)
      qed
    qed
  qed
  from a b c show ?thesis by (simp only: Let_def)
qed

theorem makeRequest_cleanup_on_every_exit_witness:
  "activeRequests (rm_run (new_RequestManager :: (nat, string) request_manager)
     [Submit ''a'' 1 None, Submit ''b'' 2 None, Submit ''c'' 3 (Some 50), TimerFires 2,
      Settles 0 (Fulfilled ''ok''),
      Settles 2 (Rejected \<lparr>err_name = ''AbortError'', err_message = ''aborted''\<rparr>),
      Settles 1 (Rejected (new_Error ''HTTP 500: boom''))]) = Map.empty"
proof -
  let ?es = "[Submit ''a'' 1 None, Submit ''b'' 2 None, Submit ''c'' 3 (Some 50), TimerFires 2,
      Settles 0 (Fulfilled ''ok''),
      Settles 2 (Rejected \<lparr>err_name = ''AbortError'', err_message = ''aborted''\<rparr>),
      Settles 1 (Rejected (new_Error ''HTTP 500: boom''))] :: (nat, string) rm_event list"
  have h: "\<forall>c \<in> set (calls (rm_run new_RequestManager ?es)). outcome c \<noteq> None"
    by (simp add: rm_run_def new_RequestManager_def makeRequest_def operation_settles_def
        timer_fires_def Let_def)
  from makeRequest_cleanup_on_every_exit [of ?es] h show ?thesis
    by (simp only: Let_def)
qed

section \<open>Properties of the presenter\<close>

lemma frames_Suc: "frames (Suc n) p = animation_frame (frames n p)"
  by (simp add: frames_def)

lemma frames_present:
  "frames n (present mid ty s now) =
     (if n < length s
      then \<lparr>target = new_message mid ty (take (Suc n) s) now, fullContent = s, idx = Suc n,
            frame_requested = True, resolved = 0\<rparr>
      else \<lparr>target = new_message mid ty s now, fullContent = s, idx = length s,
            frame_requested = False, resolved = 1\<rparr>)"
proof (induction n)
  case 0
  show ?case
    by (cases s) (simp_all add: frames_def present_def typeWriter_def new_message_def)
next
  case (Suc n)
  show ?case
  proof (cases "n < length s")
    case False
    with Suc show ?thesis
      by (simp add: frames_Suc animation_frame_def)
  next
    case True
    note n = True
    show ?thesis
    proof (cases "Suc n < length s")
      case True
      with n Suc show ?thesis
        by (simp add: frames_Suc animation_frame_def typeWriter_def new_message_def
            take_Suc_conv_app_nth [of "Suc n"])
    next
      case False
      with n have "Suc n = length s" by simp
      then have "take (Suc n) s = s" by simp
      with n False Suc show ?thesis
        by (simp add: frames_Suc animation_frame_def typeWriter_def new_message_def)
    qed
  qed
qed

text \<open>
  C6.  For every text \<open>s\<close>, after \<open>n\<close> animation frames the content of the message
  that \<open>_streamMessage\<close> fills is the prefix of \<open>s\<close> of length \<open>n + 1\<close>: each
  frame appends the next character of \<open>s\<close> to what is there and changes nothing once
  all of \<open>s\<close> is shown.  \<open>resolve()\<close> has not been called before the content is the
  whole of \<open>s\<close>, which is the case from frame \<open>length s\<close> on, and it has been called
  exactly once from then on, with no further frame requested.
\<close>

theorem streamMessage_reveals_text:
  "(let start = snd (streamMessage st ty s now);
        p = frames n start;
        p' = frames (Suc n) start
    in content (target p) = take (Suc n) s \<and>
       (Suc n < length s \<longrightarrow> content (target p') = content (target p) @ [s ! Suc n]) \<and>
       (length s \<le> Suc n \<longrightarrow> content (target p') = content (target p)) \<and>
       resolved p = (if length s \<le> n then 1 else 0) \<and>
       (length s \<le> n \<longrightarrow> content (target p) = s \<and> \<not> frame_requested p))"
proof -
  have start: "snd (streamMessage st ty s now) = present (messageIdCounter st + 1) ty s now"
    by (simp add: streamMessage_def Let_def)
  have c: "content (target (frames k (present (messageIdCounter st + 1) ty s now))) = take (Suc k) s" for k
    by (simp add: frames_present new_message_def)
  have r: "resolved (frames n (present (messageIdCounter st + 1) ty s now)) = (if length s \<le> n then 1 else 0)"
    by (simp add: frames_present)
  have f: "length s \<le> n \<longrightarrow> \<not> frame_requested (frames n (present (messageIdCounter st + 1) ty s now))"
    by (simp add: frames_present)
  have step: "Suc n < length s \<Longrightarrow> take (Suc (Suc n)) s = take (Suc n) s @ [s ! Suc n]"
    by (rule take_Suc_conv_app_nth)
  show ?thesis
    unfolding Let_def start c r using f step by simp
qed

theorem streamMessage_reveals_text_witness:
  "content (target (frames 3 (snd (streamMessage
       (new_MohanAIChatApp (Some []) ''conv_1'' None None) ''ai'' ''abc'' 0)))) = ''abc'' \<and>
   resolved (frames 3 (snd (streamMessage
       (new_MohanAIChatApp (Some []) ''conv_1'' None None) ''ai'' ''abc'' 0))) = 1 \<and>
   content (target (frames 1 (snd (streamMessage
       (new_MohanAIChatApp (Some []) ''conv_1'' None None) ''ai'' ''abc'' 0)))) = ''ab''"
  using streamMessage_reveals_text [of "new_MohanAIChatApp (Some []) ''conv_1'' None None" "''ai''" "''abc''" 0 3]
    streamMessage_reveals_text [of "new_MohanAIChatApp (Some []) ''conv_1'' None None" "''ai''" "''abc''" 0 1]
  by (simp add: Let_def)

text \<open>
  While a presenter runs and nothing else touches the list, the last entry of
  \<open>this.messages\<close> is the message as the presenter has filled it so far.
\<close>

lemma presenter_frames_shown:
  "(let (s1, pr) = streamMessage s type text now;
        j = length (presenters s);
        sn = ((\<lambda>st. presenter_frame st j) ^^ n) s1
    in messages sn = messages s @ [target (frames n pr)] \<and>
       presenters sn =
         presenters s @ [\<lparr>slot = Some (length (messages s)), writer = frames n pr\<rparr>])"
proof (induction n)
  case 0
  show ?case by (simp add: streamMessage_def Let_def frames_def)
next
  case (Suc n)
  then show ?case
    by (simp add: streamMessage_def Let_def frames_Suc presenter_frame_def nth_append)
qed

section \<open>Properties of the request keys\<close>

lemma digit_char_inj: "d < 10 \<Longrightarrow> e < 10 \<Longrightarrow> digit_char d = digit_char e \<Longrightarrow> d = e"
proof -
  assume d: "d < 10" and e: "e < 10" and eq: "digit_char d = digit_char e"
  have "distinct ''0123456789''" by simp
  with d e eq show "d = e"
    unfolding digit_char_def by (simp add: nth_eq_iff_index_eq)
qed

lemma digit_char_not_minus: "d < 10 \<Longrightarrow> digit_char d \<noteq> CHR ''-''"
proof
  assume d: "d < 10" and eq: "digit_char d = CHR ''-''"
  from d have "digit_char d \<in> set ''0123456789''"
    unfolding digit_char_def by (intro nth_mem) simp
  with eq show False by simp
qed

lemma show_nat_not_Nil: "show_nat n \<noteq> []"
  by (subst show_nat.simps) simp

lemma show_nat_no_minus: "CHR ''-'' \<notin> set (show_nat n)"
proof (induction n rule: show_nat.induct)
  case (1 n)
  show ?case
  proof (cases "n < 10")
    case True
    then show ?thesis
      using digit_char_not_minus [of n] by (subst show_nat.simps) auto
  next
    case False
    then have "n mod 10 < 10" by simp
    with False 1 show ?thesis
      using digit_char_not_minus [of "n mod 10"] by (subst show_nat.simps) auto
  qed
qed

lemma show_nat_inj: "show_nat n = show_nat m \<Longrightarrow> n = m"
proof (induction n arbitrary: m rule: show_nat.induct)
  case (1 n)
  show ?case
  proof (cases "n < 10")
    case True
    note n = True
    show ?thesis
    proof (cases "m < 10")
      case True
      with n "1.prems" show ?thesis
        by (simp add: show_nat.simps [of n] show_nat.simps [of m] digit_char_inj)
    next
      case False
      with n "1.prems" show_nat_not_Nil [of "m div 10"] show ?thesis
        by (simp add: show_nat.simps [of n] show_nat.simps [of m])
    qed
  next
    case False
    note n = False
    show ?thesis
    proof (cases "m < 10")
      case True
      with n "1.prems" show_nat_not_Nil [of "n div 10"] show ?thesis
        by (simp add: show_nat.simps [of n] show_nat.simps [of m])
    next
      case False
      with n "1.prems" have eq: "show_nat (n div 10) = show_nat (m div 10)"
        and d: "digit_char (n mod 10) = digit_char (m mod 10)"
        by (simp_all add: show_nat.simps [of n] show_nat.simps [of m])
      from "1.IH" [OF n eq] have "n div 10 = m div 10" .
      moreover from d have "n mod 10 = m mod 10"
        by (rule digit_char_inj [rotated 2]) simp_all
      ultimately show ?thesis
        by (metis div_mult_mod_eq)
    qed
  qed
qed

lemma Number_toString_inj: "Number_toString a = Number_toString b \<Longrightarrow> a = b"
proof -
  assume eq: "Number_toString a = Number_toString b"
  have hd_nonneg: "hd (show_nat k) \<noteq> CHR ''-''" for k
    using show_nat_no_minus [of k] show_nat_not_Nil [of k] by (cases "show_nat k") auto
  show ?thesis
  proof (cases "a < 0")
    case True
    note a = True
    show ?thesis
    proof (cases "b < 0")
      case True
      with a eq have "show_nat (nat (- a)) = show_nat (nat (- b))"
        by (simp add: Number_toString_def)
      then have "nat (- a) = nat (- b)" by (rule show_nat_inj)
      with a True show ?thesis by simp
    next
      case False
      with a eq have "hd (show_nat (nat b)) = CHR ''-''"
        by (simp add: Number_toString_def) (metis list.sel(1))
      with hd_nonneg show ?thesis by blast
    qed
  next
    case False
    note a = False
    show ?thesis
    proof (cases "b < 0")
      case True
      with a eq have "hd (show_nat (nat a)) = CHR ''-''"
        by (simp add: Number_toString_def)
      with hd_nonneg show ?thesis by blast
    next
      case False
      with a eq have "show_nat (nat a) = show_nat (nat b)"
        by (simp add: Number_toString_def)
      then have "nat a = nat b" by (rule show_nat_inj)
      with a False show ?thesis by simp
    qed
  qed
qed

lemma request_key_eq_iff: "request_key e1 t1 = request_key e2 t2 \<longleftrightarrow> e1 = e2 \<and> t1 = t2"
  by (cases e1; cases e2) (auto simp: request_key_def dest: Number_toString_inj)

lemma calls_stable_step:
  assumes "p < length (calls rm)"
  shows "p < length (calls (rm_step rm e)) \<and>
         call_key (calls (rm_step rm e) ! p) = call_key (calls rm ! p)"
proof (cases e)
  case (Submit key fn opt)
  with assms show ?thesis
    by (cases "activeRequests rm key") (simp_all add: makeRequest_def Let_def nth_append)
next
  case (Settles q r)
  with assms show ?thesis
    by (simp add: operation_settles_def Let_def nth_list_update)
next
  case (TimerFires q)
  with assms show ?thesis
    by (simp add: timer_fires_def nth_list_update)
next
  case CancelAll
  with assms show ?thesis
    by (simp add: cancelAllRequests_def)
qed

lemma calls_stable_run:
  "p < length (calls rm) \<Longrightarrow>
     p < length (calls (rm_run rm es)) \<and>
     call_key (calls (rm_run rm es) ! p) = call_key (calls rm ! p)"
  unfolding rm_run_def
proof (induction es arbitrary: rm)
  case Nil
  then show ?case by simp
next
  case (Cons e es)
  from calls_stable_step [OF Cons.prems, of e]
  have 1: "p < length (calls (rm_step rm e))"
    and 2: "call_key (calls (rm_step rm e) ! p) = call_key (calls rm ! p)" by simp_all
  from Cons.IH [OF 1] 2 show ?case by simp
qed

lemma makeRequest_result:
  assumes "entries_pending rm" and "makeRequest rm key fn opt = (p, rm')"
  shows "entries_pending rm' \<and> p < length (calls rm') \<and> call_key (calls rm' ! p) = key \<and>
         activeRequests rm' key = Some p \<and>
         (activeRequests rm key = None \<longrightarrow> p = length (calls rm))"
proof -
  from entries_pending_makeRequest [OF assms(1), of key fn opt] assms(2)
  have ep: "entries_pending rm'" by simp
  have act: "activeRequests rm' key = Some p"
    using assms(2) by (cases "activeRequests rm key") (auto simp: makeRequest_def Let_def)
  from ep act have "p < length (calls rm') \<and> call_key (calls rm' ! p) = key"
    unfolding entries_pending_def by blast
  moreover have "activeRequests rm key = None \<longrightarrow> p = length (calls rm)"
    using assms(2) by (auto simp: makeRequest_def Let_def)
  ultimately show ?thesis using ep act by simp
qed


lemma callAPI_key_active:
  "makeRequest rm key fn opt = (p, rm') \<Longrightarrow> activeRequests rm' key = Some p"
  by (cases "activeRequests rm key") (auto simp: makeRequest_def Let_def)

text \<open>
  C10.  The key of a backend call is its prefix followed by the decimal digits of
  \<open>Date.now()\<close>, so two keys are equal only for the same kind of call and the same
  millisecond.  After \<open>callChatAPI\<close>, \<open>callUploadAndChatAPI\<close> and
  \<open>callTranscribeAPI\<close> the entry of that key holds the promise the call waits for.
  And in every state the request manager can reach, whatever happens between two
  calls of \<open>makeRequest\<close> with such keys, the second receives the promise of the first
  only if both have the same kind and the same timestamp.
\<close>

theorem request_keys_embed_timestamp:
  "(request_key e1 t1 = request_key e2 t2 \<longleftrightarrow> e1 = e2 \<and> t1 = t2) \<and>
   activeRequests (requestManager (snd (callChatAPI s modelId text now))) (request_key Chat now)
     = Some (fst (callChatAPI s modelId text now)) \<and>
   activeRequests (requestManager (snd (callUploadAndChatAPI s modelId file text now)))
       (request_key Upload now)
     = Some (fst (callUploadAndChatAPI s modelId file text now)) \<and>
   activeRequests (requestManager (snd (callTranscribeAPI s file now))) (request_key Transcribe now)
     = Some (fst (callTranscribeAPI s file now)) \<and>
   (let rm = rm_run new_RequestManager es;
        (p1, rm1) = makeRequest rm (request_key e1 t1) f1 o1;
        (p2, rm2) = makeRequest (rm_run rm1 es') (request_key e2 t2) f2 o2
    in p2 = p1 \<longrightarrow> e1 = e2 \<and> t1 = t2)"
proof -
  let ?rm = "rm_run new_RequestManager es"
  obtain p1 rm1 where m1: "makeRequest ?rm (request_key e1 t1) f1 o1 = (p1, rm1)"
    by (cases "makeRequest ?rm (request_key e1 t1) f1 o1")
  let ?rmx = "rm_run rm1 es'"
  obtain p2 rm2 where m2: "makeRequest ?rmx (request_key e2 t2) f2 o2 = (p2, rm2)"
    by (cases "makeRequest ?rmx (request_key e2 t2) f2 o2")
  have "p2 = p1 \<longrightarrow> e1 = e2 \<and> t1 = t2"
  proof
    assume same: "p2 = p1"
    have ep: "entries_pending ?rm"
      by (rule entries_pending_run [OF entries_pending_new])
    from makeRequest_result [OF ep m1]
    have ep1: "entries_pending rm1" and l1: "p1 < length (calls rm1)"
      and k1: "call_key (calls rm1 ! p1) = request_key e1 t1" by simp_all
    from calls_stable_run [OF l1, of es'] k1
    have lx: "p1 < length (calls ?rmx)"
      and kx: "call_key (calls ?rmx ! p1) = request_key e1 t1" by simp_all
    have epx: "entries_pending ?rmx"
      by (rule entries_pending_run [OF ep1])
    from makeRequest_result [OF epx m2]
    have k2: "call_key (calls rm2 ! p2) = request_key e2 t2" by simp
    from calls_stable_step [OF lx, of "Submit (request_key e2 t2) f2 o2"] m2 kx
    have "call_key (calls rm2 ! p1) = request_key e1 t1" by simp
    with k2 same have "request_key e1 t1 = request_key e2 t2" by simp
    then show "e1 = e2 \<and> t1 = t2" by (simp add: request_key_eq_iff)
  qed
  with m1 m2 have last: "(let rm = rm_run new_RequestManager es;
        (p1, rm1) = makeRequest rm (request_key e1 t1) f1 o1;
        (p2, rm2) = makeRequest (rm_run rm1 es') (request_key e2 t2) f2 o2
    in p2 = p1 \<longrightarrow> e1 = e2 \<and> t1 = t2)"
    by (simp add: Let_def)
  have c: "activeRequests (requestManager (snd (callChatAPI s modelId text now))) (request_key Chat now)
     = Some (fst (callChatAPI s modelId text now))"
    by (auto simp: callChatAPI_def Let_def split: prod.splits dest: callAPI_key_active)
  have u: "activeRequests (requestManager (snd (callUploadAndChatAPI s modelId file text now)))
       (request_key Upload now)
     = Some (fst (callUploadAndChatAPI s modelId file text now))"
    by (auto simp: callUploadAndChatAPI_def Let_def split: prod.splits dest: callAPI_key_active)
  have t: "activeRequests (requestManager (snd (callTranscribeAPI s file now))) (request_key Transcribe now)
     = Some (fst (callTranscribeAPI s file now))"
    by (auto simp: callTranscribeAPI_def Let_def split: prod.splits dest: callAPI_key_active)
  from request_key_eq_iff [of e1 t1 e2 t2] c u t last show ?thesis by blast
qed

lemma show_nat_digit: "n < 10 \<Longrightarrow> show_nat n = [digit_char n]"
  by (simp add: show_nat.simps [of n])

theorem request_keys_embed_timestamp_witness:
  "(let rm = rm_run (new_RequestManager :: (nat, string) request_manager) [];
        (p1, rm1) = makeRequest rm (request_key Chat 5) 1 None;
        (p2, rm2) = makeRequest (rm_run rm1 []) (request_key Chat 5) 2 None
    in p2 = p1) \<and>
   request_key Chat 5 = ''chat-5'' \<and>
   request_key Chat 5 \<noteq> request_key Chat 6 \<and>
   request_key Chat 5 \<noteq> request_key Upload 5"
proof -
  have k: "request_key Chat 5 = ''chat-5''"
    by (simp add: request_key_def Number_toString_def show_nat_digit digit_char_def)
  have j: "(let rm = rm_run (new_RequestManager :: (nat, string) request_manager) [];
        (p1, rm1) = makeRequest rm (request_key Chat 5) 1 None;
        (p2, rm2) = makeRequest (rm_run rm1 []) (request_key Chat 5) 2 None
    in p2 = p1)"
    by (simp add: k rm_run_def new_RequestManager_def makeRequest_def Let_def)
  have d1: "request_key Chat 5 \<noteq> request_key Chat 6"
    using request_keys_embed_timestamp [of Chat 5 Chat 6, THEN conjunct1] by simp
  have d2: "request_key Chat 5 \<noteq> request_key Upload 5"
    using request_keys_embed_timestamp [of Chat 5 Upload 5, THEN conjunct1] by simp
  from j k d1 d2 show ?thesis by blast
qed

section \<open>Joining a request that has an entry\<close>

lemma outcome_stable_step:
  assumes "p < length (calls rm)" and "outcome (calls rm ! p) = Some x"
  shows "outcome (calls (rm_step rm e) ! p) = Some x"
proof (cases e)
  case (Submit key fn opt)
  with assms show ?thesis
    by (cases "activeRequests rm key") (simp_all add: makeRequest_def Let_def nth_append)
next
  case (Settles q r)
  with assms show ?thesis
    by (auto simp: operation_settles_def Let_def nth_list_update)
next
  case (TimerFires q)
  with assms show ?thesis
    by (simp add: timer_fires_def nth_list_update)
next
  case CancelAll
  with assms show ?thesis
    by (simp add: cancelAllRequests_def)
qed

lemma outcome_stable_run:
  "p < length (calls rm) \<Longrightarrow> outcome (calls rm ! p) = Some x \<Longrightarrow>
     outcome (calls (rm_run rm es) ! p) = Some x"
  unfolding rm_run_def
proof (induction es arbitrary: rm)
  case Nil
  then show ?case by simp
next
  case (Cons e es)
  from calls_stable_step [OF Cons.prems(1), of e]
  have 1: "p < length (calls (rm_step rm e))" by simp
  from outcome_stable_step [OF Cons.prems] have 2: "outcome (calls (rm_step rm e) ! p) = Some x" .
  from Cons.IH [OF 1 2] show ?case by simp
qed

lemma entry_kept_step:
  assumes "activeRequests rm key = Some p" and "\<not> disturbs rm key e" and "entries_pending rm"
  shows "activeRequests (rm_step rm e) key = Some p"
proof (cases e)
  case (Submit k fn opt)
  with assms(1) show ?thesis
    by (cases "activeRequests rm k") (auto simp: makeRequest_def Let_def)
next
  case (Settles q r)
  with assms(1,2) show ?thesis
    by (auto simp: operation_settles_def Let_def)
next
  case (TimerFires q)
  with assms(1) show ?thesis
    by (simp add: timer_fires_def)
next
  case CancelAll
  with assms(2) show ?thesis by simp
qed

lemma entry_kept_run:
  "activeRequests rm key = Some p \<Longrightarrow> undisturbed rm key es \<Longrightarrow> entries_pending rm \<Longrightarrow>
     activeRequests (rm_run rm es) key = Some p"
  unfolding rm_run_def
proof (induction es arbitrary: rm)
  case Nil
  then show ?case by simp
next
  case (Cons e es)
  from Cons.prems(2) have nd: "\<not> disturbs rm key e" and rest: "undisturbed (rm_step rm e) key es"
    by simp_all
  from entry_kept_step [OF Cons.prems(1) nd Cons.prems(3)]
  have 1: "activeRequests (rm_step rm e) key = Some p" .
  from entries_pending_step [OF Cons.prems(3)] have 2: "entries_pending (rm_step rm e)" .
  from Cons.IH [OF 1 rest 2] show ?case by simp
qed

lemma makeRequest_join:
  "activeRequests rm key = Some p \<Longrightarrow> makeRequest rm key fn opt = (p, rm)"
  by (simp add: makeRequest_def)

text \<open>
  C1, as the code has it.  A call of \<open>makeRequest\<close> under a key that has an entry in
  \<open>activeRequests\<close> joins it.  In every state the manager can reach, such a call
  returns the stored promise \<open>p\<close>, invokes nothing and changes nothing, so that there
  is still one invocation for each promise made; \<open>p\<close> is the unsettled
  \<open>requestPromise\<close> of a call that was made under this key; and when, after whatever
  happens next, the operation of that call settles with \<open>r\<close>, the promise the
  second caller holds is settled with what \<open>executeRequest\<close> makes of \<open>r\<close>, and
  stays so.  The entry is there in particular when the first call has made it and, up
  to the second call, \<open>cancelAllRequests\<close> has not run and no call under the key has
  settled: then the second call returns the promise of the first and invokes nothing.
\<close>

theorem makeRequest_joins_entry:
  "(let rm = rm_run new_RequestManager es;
        (q, rm') = makeRequest rm key requestFn opts
    in activeRequests rm key = Some p \<longrightarrow>
         q = p \<and> rm' = rm \<and> invocations rm' = invocations rm \<and>
         invocations rm' = map call_fn (calls rm') \<and>
         p < length (calls rm) \<and> call_key (calls rm ! p) = key \<and>
         outcome (calls rm ! p) = None \<and>
         (\<forall>es' r. outcome (calls (rm_run rm' es') ! p) = None \<longrightarrow>
            (let settled = operation_settles (rm_run rm' es') p r
             in outcome (calls settled ! q) = Some (executeRequest r) \<and>
                (\<forall>es''. outcome (calls (rm_run settled es'') ! q) = Some (executeRequest r))))) \<and>
   (let rm0 = rm_run new_RequestManager es;
        (p1, rm1) = makeRequest rm0 key f1 o1;
        rm2 = rm_run rm1 es2;
        (p2, rm3) = makeRequest rm2 key f2 o2
    in undisturbed rm1 key es2 \<longrightarrow>
         p2 = p1 \<and> rm3 = rm2 \<and> invocations rm3 = invocations rm2)"
proof -
  let ?rm = "rm_run new_RequestManager es"
  have ep: "entries_pending ?rm"
    by (rule entries_pending_run [OF entries_pending_new])
  have first: "activeRequests ?rm key = Some p \<longrightarrow>
         makeRequest ?rm key requestFn opts = (p, ?rm) \<and>
         invocations ?rm = map call_fn (calls ?rm) \<and>
         p < length (calls ?rm) \<and> call_key (calls ?rm ! p) = key \<and>
         outcome (calls ?rm ! p) = None \<and>
         (\<forall>es' r. outcome (calls (rm_run ?rm es') ! p) = None \<longrightarrow>
            (let settled = operation_settles (rm_run ?rm es') p r
             in outcome (calls settled ! p) = Some (executeRequest r) \<and>
                (\<forall>es''. outcome (calls (rm_run settled es'') ! p) = Some (executeRequest r))))"
  proof
    assume entry: "activeRequests ?rm key = Some p"
    from ep entry have pend: "p < length (calls ?rm) \<and> call_key (calls ?rm ! p) = key \<and>
        outcome (calls ?rm ! p) = None"
      unfolding entries_pending_def by blast
    have "cleanup_once ?rm"
      by (rule cleanup_once_run [OF cleanup_once_new])
    then have inv: "invocations ?rm = map call_fn (calls ?rm)"
      unfolding cleanup_once_def by blast
    have later: "\<forall>es' r. outcome (calls (rm_run ?rm es') ! p) = None \<longrightarrow>
            (let settled = operation_settles (rm_run ?rm es') p r
             in outcome (calls settled ! p) = Some (executeRequest r) \<and>
                (\<forall>es''. outcome (calls (rm_run settled es'') ! p) = Some (executeRequest r)))"
    proof (intro allI impI)
      fix es' r
      let ?then = "rm_run ?rm es'"
      let ?settled = "operation_settles ?then p r"
      assume unset: "outcome (calls ?then ! p) = None"
      from pend calls_stable_run [of p ?rm es'] have len: "p < length (calls ?then)" by simp
      from len unset have now: "outcome (calls ?settled ! p) = Some (executeRequest r)"
        and len': "p < length (calls ?settled)"
        by (simp_all add: operation_settles_def Let_def)
      from outcome_stable_run [OF len' now]
      have "\<forall>es''. outcome (calls (rm_run ?settled es'') ! p) = Some (executeRequest r)" by simp
      with now show "let settled = operation_settles ?then p r
             in outcome (calls settled ! p) = Some (executeRequest r) \<and>
                (\<forall>es''. outcome (calls (rm_run settled es'') ! p) = Some (executeRequest r))"
        by (simp add: Let_def)
    qed
    from makeRequest_join [OF entry] pend inv later
    show "makeRequest ?rm key requestFn opts = (p, ?rm) \<and>
         invocations ?rm = map call_fn (calls ?rm) \<and>
         p < length (calls ?rm) \<and> call_key (calls ?rm ! p) = key \<and>
         outcome (calls ?rm ! p) = None \<and>
         (\<forall>es' r. outcome (calls (rm_run ?rm es') ! p) = None \<longrightarrow>
            (let settled = operation_settles (rm_run ?rm es') p r
             in outcome (calls settled ! p) = Some (executeRequest r) \<and>
                (\<forall>es''. outcome (calls (rm_run settled es'') ! p) = Some (executeRequest r))))"
      by blast
  qed
  have A: "(let rm = rm_run new_RequestManager es;
        (q, rm') = makeRequest rm key requestFn opts
    in activeRequests rm key = Some p \<longrightarrow>
         q = p \<and> rm' = rm \<and> invocations rm' = invocations rm \<and>
         invocations rm' = map call_fn (calls rm') \<and>
         p < length (calls rm) \<and> call_key (calls rm ! p) = key \<and>
         outcome (calls rm ! p) = None \<and>
         (\<forall>es' r. outcome (calls (rm_run rm' es') ! p) = None \<longrightarrow>
            (let settled = operation_settles (rm_run rm' es') p r
             in outcome (calls settled ! q) = Some (executeRequest r) \<and>
                (\<forall>es''. outcome (calls (rm_run settled es'') ! q) = Some (executeRequest r)))))"
  proof (cases "activeRequests ?rm key = Some p")
    case False
    then show ?thesis by (simp add: Let_def split: prod.splits)
  next
    case True
    with first have mk: "makeRequest ?rm key requestFn opts = (p, ?rm)" by blast
    from first True show ?thesis
      unfolding Let_def mk prod.case by blast
  qed
  obtain p1 rm1 where m1: "makeRequest ?rm key f1 o1 = (p1, rm1)"
    by (cases "makeRequest ?rm key f1 o1")
  let ?rm2 = "rm_run rm1 es2"
  have B0: "undisturbed rm1 key es2 \<longrightarrow> makeRequest ?rm2 key f2 o2 = (p1, ?rm2)"
  proof
    assume u: "undisturbed rm1 key es2"
    from makeRequest_result [OF ep m1]
    have ep1: "entries_pending rm1" and act: "activeRequests rm1 key = Some p1" by simp_all
    from entry_kept_run [OF act u ep1] have "activeRequests ?rm2 key = Some p1" .
    then show "makeRequest ?rm2 key f2 o2 = (p1, ?rm2)" by (rule makeRequest_join)
  qed
  have B: "(let rm0 = rm_run new_RequestManager es;
        (p1, rm1) = makeRequest rm0 key f1 o1;
        rm2 = rm_run rm1 es2;
        (p2, rm3) = makeRequest rm2 key f2 o2
    in undisturbed rm1 key es2 \<longrightarrow>
         p2 = p1 \<and> rm3 = rm2 \<and> invocations rm3 = invocations rm2)"
  proof (cases "undisturbed rm1 key es2")
    case False
    then show ?thesis by (simp add: Let_def m1 split: prod.splits)
  next
    case True
    with B0 have "makeRequest ?rm2 key f2 o2 = (p1, ?rm2)" by blast
    then show ?thesis by (simp add: Let_def m1)
  qed
  from A B show ?thesis by (rule conjI)
qed

theorem makeRequest_joins_entry_witness:
  "fst (makeRequest (rm_run (new_RequestManager :: (nat, string) request_manager)
       [Submit ''chat-1'' 7 None, TimerFires 0]) ''chat-1'' 8 None) = 0 \<and>
   invocations (snd (makeRequest (rm_run (new_RequestManager :: (nat, string) request_manager)
       [Submit ''chat-1'' 7 None, TimerFires 0]) ''chat-1'' 8 None)) = [7] \<and>
   outcome (calls (operation_settles (rm_run (new_RequestManager :: (nat, string) request_manager)
       [Submit ''chat-1'' 7 None, TimerFires 0]) 0 (Fulfilled ''pong'')) ! 0) = Some (Fulfilled ''pong'')"
proof -
  let ?es = "[Submit ''chat-1'' 7 None, TimerFires 0] :: (nat, string) rm_event list"
  let ?rm = "rm_run new_RequestManager ?es"
  have h: "activeRequests ?rm ''chat-1'' = Some 0"
    by (simp add: rm_run_def new_RequestManager_def makeRequest_def timer_fires_def)
  have inv: "invocations ?rm = [7]"
    by (simp add: rm_run_def new_RequestManager_def makeRequest_def timer_fires_def)
  have ex: "executeRequest (Fulfilled ''pong'') = (Fulfilled ''pong'' :: string settled)"
    by (simp add: executeRequest_def)
  from makeRequest_joins_entry [of ?es "''chat-1''" 8 None 0, THEN conjunct1] h
  have j: "(case makeRequest ?rm ''chat-1'' 8 None of
      (q, rm') \<Rightarrow> q = 0 \<and> rm' = ?rm \<and> invocations rm' = invocations ?rm \<and>
         outcome (calls ?rm ! 0) = None \<and>
         (\<forall>es' r. outcome (calls (rm_run rm' es') ! 0) = None \<longrightarrow>
            (let settled = operation_settles (rm_run rm' es') 0 r
             in outcome (calls settled ! q) = Some (executeRequest r))))"
    by (simp add: Let_def split: prod.splits)
  then have 1: "fst (makeRequest ?rm ''chat-1'' 8 None) = 0"
    and 2: "invocations (snd (makeRequest ?rm ''chat-1'' 8 None)) = [7]"
    by (simp_all add: inv split: prod.splits)
  from j have "outcome (calls (rm_run ?rm []) ! 0) = None \<longrightarrow>
      outcome (calls (operation_settles (rm_run ?rm []) 0 (Fulfilled ''pong'')) ! 0)
        = Some (executeRequest (Fulfilled ''pong''))"
    by (auto simp: Let_def split: prod.splits)
  moreover from j have "outcome (calls ?rm ! 0) = None" by (auto split: prod.splits)
  ultimately have 3: "outcome (calls (operation_settles ?rm 0 (Fulfilled ''pong'')) ! 0)
      = Some (Fulfilled ''pong'')"
    by (simp add: rm_run_def [of _ "[]"] ex)
  from 1 2 3 show ?thesis by blast
qed

text \<open>
  C1 as stated fails where the operation is pending without an entry.  After
  \<open>cancelAllRequests\<close> the first operation under the key has not settled, and a
  second call under the same key gets a new promise and invokes its operation.
\<close>

theorem makeRequest_reinvokes_after_cancel:
  "call_key (calls (rm_run (new_RequestManager :: (nat, string) request_manager)
       [Submit ''chat-1'' 7 None, CancelAll]) ! 0) = ''chat-1'' \<and>
   outcome (calls (rm_run (new_RequestManager :: (nat, string) request_manager)
       [Submit ''chat-1'' 7 None, CancelAll]) ! 0) = None \<and>
   fst (makeRequest (rm_run (new_RequestManager :: (nat, string) request_manager)
       [Submit ''chat-1'' 7 None, CancelAll]) ''chat-1'' 8 None) = 1 \<and>
   invocations (snd (makeRequest (rm_run (new_RequestManager :: (nat, string) request_manager)
       [Submit ''chat-1'' 7 None, CancelAll]) ''chat-1'' 8 None)) = [7, 8]"
  by (simp add: rm_run_def new_RequestManager_def makeRequest_def cancelAllRequests_def)

section \<open>Properties of the chat request\<close>

lemma js_slice_last_ten: "js_slice xs (- 10) = drop (length xs - 10) xs"
proof -
  have "nat (max (int (length xs) + - 10) 0) = length xs - 10" by simp
  then show ?thesis by (simp add: js_slice_def Let_def)
qed

lemma js_slice_last:
  assumes "xs \<noteq> []"
  shows "js_slice xs (- 10) \<noteq> [] \<and> last (js_slice xs (- 10)) = last xs"
proof -
  from assms have "length xs - 10 < length xs" by (cases xs) simp_all
  then show ?thesis by (simp add: js_slice_last_ten)
qed

lemma makeRequest_fresh_invokes:
  "activeRequests rm key = None \<Longrightarrow>
     invocations (snd (makeRequest rm key fn opt)) = invocations rm @ [fn]"
  by (simp add: makeRequest_def Let_def)

text \<open>
  The window of the history.  The \<open>history\<close> of the body that \<open>callChatAPI\<close>
  builds is made from the messages whose type is not \<open>file-attachment\<close>: the last
  ten of them, or all when there are fewer, in their order, each as its \<open>role\<close>,
  \<open>content\<close> and \<open>timestamp\<close>.  With a list of fifteen messages, none of that
  type, these are the last ten.  This body is what the call sends when its key is not
  active.
\<close>

lemma chat_history_window:
  "(let plain = filter (\<lambda>m. \<not> is_file_attachment m) (messages s);
        h = history (chat_request_body s modelId text)
    in h = map history_entry_of (drop (length plain - 10) plain) \<and>
       length h = min 10 (length plain) \<and>
       (length (messages s) = 15 \<and> (\<forall>m \<in> set (messages s). \<not> is_file_attachment m) \<longrightarrow>
          h = map history_entry_of (drop 5 (messages s))) \<and>
       (activeRequests (requestManager s) (request_key Chat now) = None \<longrightarrow>
          invocations (requestManager (snd (callChatAPI s modelId text now)))
            = invocations (requestManager s) @ [ChatOp (chat_request_body s modelId text)]))"
proof -
  let ?plain = "filter (\<lambda>m. \<not> is_file_attachment m) (messages s)"
  let ?h = "history (chat_request_body s modelId text)"
  have h: "?h = map history_entry_of (drop (length ?plain - 10) ?plain)"
    by (simp add: chat_request_body_def chat_history_def js_slice_last_ten)
  have len: "length ?h = min 10 (length ?plain)"
    unfolding h by simp
  have fifteen: "length (messages s) = 15 \<and> (\<forall>m \<in> set (messages s). \<not> is_file_attachment m) \<longrightarrow>
          ?h = map history_entry_of (drop 5 (messages s))"
  proof
    assume a: "length (messages s) = 15 \<and> (\<forall>m \<in> set (messages s). \<not> is_file_attachment m)"
    then have "?plain = messages s" by simp
    with a show "?h = map history_entry_of (drop 5 (messages s))"
      unfolding h by simp
  qed
  have sent: "activeRequests (requestManager s) (request_key Chat now) = None \<longrightarrow>
          invocations (requestManager (snd (callChatAPI s modelId text now)))
            = invocations (requestManager s) @ [ChatOp (chat_request_body s modelId text)]"
    using makeRequest_fresh_invokes [of "requestManager s" "request_key Chat now"]
    by (simp add: callChatAPI_def Let_def split: prod.splits) (metis snd_conv)
  from h len fifteen sent show ?thesis
    by (simp only: Let_def) 
qed


lemma chat_history_snoc:
  assumes "\<not> is_file_attachment m"
  shows "chat_history (msgs @ [m]) \<noteq> [] \<and> last (chat_history (msgs @ [m])) = history_entry_of m"
proof -
  let ?plain = "filter (\<lambda>m. \<not> is_file_attachment m) (msgs @ [m])"
  from assms have ne: "?plain \<noteq> []" and l: "last ?plain = m" by simp_all
  from js_slice_last [OF ne] l show ?thesis
    unfolding chat_history_def by (simp add: last_map)
qed

lemma showLoading_loading: "isLoading s \<Longrightarrow> showLoading s = s"
  by (simp add: showLoading_def)

text \<open>
  C9.  A send of non-empty text without an attached file, when the guards of
  \<open>sendMessage\<close> pass: the user message with the trimmed text is appended to the
  session, and the request that is then sent, if its key is not active, has that text
  as its \<open>message\<close> and a history built from the session that already holds the
  message, so that the last entry of the history is this message.
\<close>

theorem sendMessage_history_includes_sent_message:
  assumes "messageInput s = Some v" and "currentModel s = Some modelId"
    and "\<not> isLoading s" and "attachedFile s = None" and "js_trim v \<noteq> []"
  shows "(let (s', ps) = sendMessage label s t_file t_text t_key; text = js_trim v
          in messages s' = messages s @ [new_message (messageIdCounter s + 1) ''user'' text t_text] \<and>
             (activeRequests (requestManager s) (request_key Chat t_key) = None \<longrightarrow>
                (\<exists>r. invocations (requestManager s') = invocations (requestManager s) @ [ChatOp r] \<and>
                     model_id r = modelId \<and>
                     req_message r = text \<and>
                     history r = chat_history (messages s') \<and>
                     history r \<noteq> [] \<and>
                     last (history r) =
                       \<lparr>role = ''user'', entry_content = text, entry_timestamp = t_text\<rparr>)))"
proof -
  let ?text = "js_trim v"
  let ?m = "new_message (messageIdCounter s + 1) ''user'' ?text t_text"
  let ?s3 = "addMessage (s\<lparr>isLoading := True, sendBtn_disabled := True\<rparr>) ''user'' ?text t_text"
  let ?s4 = "?s3\<lparr>messageInput := Some [], attachedFile := None\<rparr>"
  have load: "isLoading ?s4" by (simp add: addMessage_def Let_def)
  have send: "sendMessage label s t_file t_text t_key =
      (let (p, s5) = callChatAPI ?s4 modelId ?text t_key
       in (s5, Some \<lparr>awaited = p, sent_file = None, sent_text = ?text\<rparr>))"
    using assms by (simp add: sendMessage_def Let_def showLoading_loading [OF load])
  have msgs4: "messages ?s4 = messages s @ [?m]"
    by (simp add: addMessage_def Let_def)
  have rm4: "requestManager ?s4 = requestManager s"
    by (simp add: addMessage_def Let_def)
  have na: "\<not> is_file_attachment ?m"
    by (simp add: is_file_attachment_def new_message_def)
  obtain p rm where mk: "makeRequest (requestManager s) (request_key Chat t_key)
      (ChatOp (chat_request_body ?s4 modelId ?text)) None = (p, rm)"
    by (cases "makeRequest (requestManager s) (request_key Chat t_key)
      (ChatOp (chat_request_body ?s4 modelId ?text)) None")
  have res: "sendMessage label s t_file t_text t_key =
      (?s4\<lparr>requestManager := rm\<rparr>, Some \<lparr>awaited = p, sent_file = None, sent_text = ?text\<rparr>)"
    using mk by (simp add: send callChatAPI_def rm4 Let_def)
  let ?r = "chat_request_body ?s4 modelId ?text"
  have hist: "history ?r = chat_history (messages s @ [?m])"
    by (simp add: chat_request_body_def msgs4)
  from chat_history_snoc [OF na, of "messages s"] hist
  have hne: "history ?r \<noteq> []" and hl: "last (history ?r) = history_entry_of ?m" by simp_all
  have he: "history_entry_of ?m = \<lparr>role = ''user'', entry_content = ?text, entry_timestamp = t_text\<rparr>"
    by (simp add: history_entry_of_def new_message_def)
  have fresh: "activeRequests (requestManager s) (request_key Chat t_key) = None \<longrightarrow>
      invocations rm = invocations (requestManager s) @ [ChatOp ?r]"
    using makeRequest_fresh_invokes [of "requestManager s" "request_key Chat t_key" "ChatOp ?r" None] mk
    by simp
  have "messages (?s4\<lparr>requestManager := rm\<rparr>) = messages s @ [?m]"
    using msgs4 by simp
  moreover have "activeRequests (requestManager s) (request_key Chat t_key) = None \<longrightarrow>
      (\<exists>r. invocations rm = invocations (requestManager s) @ [ChatOp r] \<and>
           model_id r = modelId \<and> req_message r = ?text \<and>
           history r = chat_history (messages s @ [?m]) \<and> history r \<noteq> [] \<and>
           last (history r) = \<lparr>role = ''user'', entry_content = ?text, entry_timestamp = t_text\<rparr>)"
  proof
    assume "activeRequests (requestManager s) (request_key Chat t_key) = None"
    with fresh have "invocations rm = invocations (requestManager s) @ [ChatOp ?r]" by simp
    moreover have "model_id ?r = modelId" and "req_message ?r = ?text"
      by (simp_all add: chat_request_body_def)
    ultimately show "\<exists>r. invocations rm = invocations (requestManager s) @ [ChatOp r] \<and>
           model_id r = modelId \<and> req_message r = ?text \<and>
           history r = chat_history (messages s @ [?m]) \<and> history r \<noteq> [] \<and>
           last (history r) = \<lparr>role = ''user'', entry_content = ?text, entry_timestamp = t_text\<rparr>"
      using hist hne hl he by (intro exI [of _ ?r]) simp
  qed
  ultimately show ?thesis
    by (simp add: res Let_def)
qed

lemma js_trim_hello: "js_trim ''hello'' = ''hello''"
  by (simp add: js_trim_def isWhiteSpace_def)

theorem sendMessage_history_includes_sent_message_witness:
  "(let s = (new_MohanAIChatApp (Some ''hello'') ''conv_1'' None None)\<lparr>currentModel := Some ''llama''\<rparr>;
        (s', ps) = sendMessage (\<lambda>f. file_name f) s 1 2 3
    in messages s' = [new_message 1 ''user'' ''hello'' 2] \<and>
       (\<exists>r. invocations (requestManager s') = [ChatOp r] \<and> req_message r = ''hello'' \<and>
            last (history r) = \<lparr>role = ''user'', entry_content = ''hello'', entry_timestamp = 2\<rparr>))"
proof -
  let ?s = "(new_MohanAIChatApp (Some ''hello'') ''conv_1'' None None)\<lparr>currentModel := Some ''llama''\<rparr>"
  have 1: "messageInput ?s = Some ''hello''" and 2: "currentModel ?s = Some ''llama''"
    and 3: "\<not> isLoading ?s" and 4: "attachedFile ?s = None" and 5: "js_trim ''hello'' \<noteq> []"
    by (simp_all add: new_MohanAIChatApp_def js_trim_hello)
  have 6: "activeRequests (requestManager ?s) (request_key Chat 3) = None"
    and 7: "invocations (requestManager ?s) = []" and 8: "messages ?s = []"
    and 9: "messageIdCounter ?s = 0"
    by (simp_all add: new_MohanAIChatApp_def new_RequestManager_def)
  from sendMessage_history_includes_sent_message [OF 1 2 3 4 5, of "\<lambda>f. file_name f" 1 2 3]
  show ?thesis
    unfolding Let_def js_trim_hello 6 7 8 9 by (auto split: prod.splits)
qed

section \<open>Properties of sendMessage\<close>

lemma makeRequest_issue:
  assumes "makeRequest rm key fn opt = (p, rm')"
  shows "activeRequests rm' key = Some p \<and>
         (activeRequests rm key = None \<longrightarrow> invocations rm' = invocations rm @ [fn])"
  using assms by (cases "activeRequests rm key") (auto simp: makeRequest_def Let_def)

text \<open>
  The state of \<open>sendMessage\<close> when it reaches its \<open>try\<close> block: the messages it has
  added, the input and the attachment cleared.
\<close>

lemma sendMessage_passes:
  assumes inp: "messageInput s = Some v" and model: "currentModel s = Some modelId"
    and idle: "\<not> isLoading s" and some: "js_trim v \<noteq> [] \<or> attachedFile s \<noteq> None"
  shows "\<exists>added e fn p rm'.
           sendMessage label s t_file t_text t_key =
             (s\<lparr>isLoading := True, sendBtn_disabled := True,
                messageIdCounter := messageIdCounter s + length added,
                messages := messages s @ added,
                messageInput := Some [], attachedFile := None,
                requestManager := rm'\<rparr>,
              Some \<lparr>awaited = p, sent_file = attachedFile s, sent_text = js_trim v\<rparr>) \<and>
           added \<noteq> [] \<and>
           makeRequest (requestManager s) (request_key e t_key) fn None = (p, rm')"
proof -
  let ?text = "js_trim v"
  let ?s1 = "s\<lparr>isLoading := True, sendBtn_disabled := True\<rparr>"
  show ?thesis
  proof (cases "attachedFile s")
    case None
    with some have nonempty: "?text \<noteq> []" by simp
    let ?added = "[new_message (messageIdCounter s + 1) ''user'' ?text t_text]"
    let ?s4 = "(addMessage ?s1 ''user'' ?text t_text)\<lparr>messageInput := Some [], attachedFile := None\<rparr>"
    let ?fn = "ChatOp (chat_request_body ?s4 modelId ?text)"
    obtain p rm' where mk: "makeRequest (requestManager s) (request_key Chat t_key) ?fn None = (p, rm')"
      by (cases "makeRequest (requestManager s) (request_key Chat t_key) ?fn None")
    have load: "isLoading ?s4" by (simp add: addMessage_def Let_def)
    have rm4: "requestManager ?s4 = requestManager s" by (simp add: addMessage_def Let_def)
    have "sendMessage label s t_file t_text t_key =
        (?s4\<lparr>requestManager := rm'\<rparr>, Some \<lparr>awaited = p, sent_file = None, sent_text = ?text\<rparr>)"
      using inp model idle None nonempty mk
      by (simp add: sendMessage_def Let_def showLoading_loading [OF load] callChatAPI_def rm4)
    then have "sendMessage label s t_file t_text t_key =
             (s\<lparr>isLoading := True, sendBtn_disabled := True,
                messageIdCounter := messageIdCounter s + length ?added,
                messages := messages s @ ?added,
                messageInput := Some [], attachedFile := None,
                requestManager := rm'\<rparr>,
              Some \<lparr>awaited = p, sent_file = attachedFile s, sent_text = js_trim v\<rparr>)"
      using None by (simp add: addMessage_def Let_def)
    with mk show ?thesis by blast
  next
    case (Some f)
    let ?s2 = "addMessage ?s1 ''user'' (label f) t_file"
    let ?s3 = "if ?text \<noteq> [] then addMessage ?s2 ''user'' ?text t_text else ?s2"
    let ?s4 = "?s3\<lparr>messageInput := Some [], attachedFile := None\<rparr>"
    let ?added = "new_message (messageIdCounter s + 1) ''user'' (label f) t_file #
        (if ?text \<noteq> [] then [new_message (messageIdCounter s + 2) ''user'' ?text t_text] else [])"
    have load: "isLoading ?s4" by (simp add: addMessage_def Let_def)
    have rm4: "requestManager ?s4 = requestManager s" by (simp add: addMessage_def Let_def)
    have s4: "?s4 = s\<lparr>isLoading := True, sendBtn_disabled := True,
                messageIdCounter := messageIdCounter s + length ?added,
                messages := messages s @ ?added,
                messageInput := Some [], attachedFile := None\<rparr>"
      by (simp add: addMessage_def Let_def)
    show ?thesis
    proof (cases "prefix ''audio'' (file_type f)")
      case True
      let ?fn = "TranscribeOp f"
      obtain p rm' where mk: "makeRequest (requestManager s) (request_key Transcribe t_key) ?fn None = (p, rm')"
        by (cases "makeRequest (requestManager s) (request_key Transcribe t_key) ?fn None")
      have "sendMessage label s t_file t_text t_key =
          (?s4\<lparr>requestManager := rm'\<rparr>, Some \<lparr>awaited = p, sent_file = Some f, sent_text = ?text\<rparr>)"
        using inp model idle Some True mk rm4
        by (simp add: sendMessage_def Let_def showLoading_loading [OF load] callTranscribeAPI_def)
      then have "sendMessage label s t_file t_text t_key =
             (s\<lparr>isLoading := True, sendBtn_disabled := True,
                messageIdCounter := messageIdCounter s + length ?added,
                messages := messages s @ ?added,
                messageInput := Some [], attachedFile := None,
                requestManager := rm'\<rparr>,
              Some \<lparr>awaited = p, sent_file = attachedFile s, sent_text = js_trim v\<rparr>)"
        using Some by (simp only: s4)
      moreover have "?added \<noteq> []" by simp
      ultimately show ?thesis using mk by blast
    next
      case False
      let ?fn = "UploadOp f ?text modelId"
      obtain p rm' where mk: "makeRequest (requestManager s) (request_key Upload t_key) ?fn None = (p, rm')"
        by (cases "makeRequest (requestManager s) (request_key Upload t_key) ?fn None")
      have "sendMessage label s t_file t_text t_key =
          (?s4\<lparr>requestManager := rm'\<rparr>, Some \<lparr>awaited = p, sent_file = Some f, sent_text = ?text\<rparr>)"
        using inp model idle Some False mk rm4
        by (simp add: sendMessage_def Let_def showLoading_loading [OF load] callUploadAndChatAPI_def)
      then have "sendMessage label s t_file t_text t_key =
             (s\<lparr>isLoading := True, sendBtn_disabled := True,
                messageIdCounter := messageIdCounter s + length ?added,
                messages := messages s @ ?added,
                messageInput := Some [], attachedFile := None,
                requestManager := rm'\<rparr>,
              Some \<lparr>awaited = p, sent_file = attachedFile s, sent_text = js_trim v\<rparr>)"
        using Some by (simp only: s4)
      moreover have "?added \<noteq> []" by simp
      ultimately show ?thesis using mk by blast
    qed
  qed
qed

lemma sendMessage_blocked:
  assumes "messageInput s = None \<or> currentModel s = None \<or> isLoading s \<or>
           (\<exists>v. messageInput s = Some v \<and> js_trim v = [] \<and> attachedFile s = None)"
  shows "sendMessage label s t_file t_text t_key = (s, None)"
  using assms by (auto simp: sendMessage_def Let_def split: option.splits)


text \<open>
  C3, as the code has it.  From the idle state (no send is loading), \<open>sendMessage\<close>
  goes on exactly when the input element exists, a model is selected, and the trimmed
  text is non-empty or a file is attached.  Then it sets \<open>isLoading\<close>, adds at least
  one message, and makes one call of \<open>makeRequest\<close>, whose promise it awaits and which
  invokes one operation unless the key is active.  Otherwise it returns with the state
  as it was.
\<close>

theorem sendMessage_guard:
  assumes "\<not> isLoading s"
  shows "(let guard = (currentModel s \<noteq> None \<and>
                       (\<exists>v. messageInput s = Some v \<and> (js_trim v \<noteq> [] \<or> attachedFile s \<noteq> None)));
              (s', ps) = sendMessage label s t_file t_text t_key
          in (\<not> guard \<longrightarrow> s' = s \<and> ps = None) \<and>
             (guard \<longrightarrow>
                isLoading s' \<and> length (messages s) < length (messages s') \<and>
                (\<exists>p e fn. map_option awaited ps = Some p \<and>
                   activeRequests (requestManager s') (request_key e t_key) = Some p \<and>
                   (activeRequests (requestManager s) (request_key e t_key) = None \<longrightarrow>
                      invocations (requestManager s') = invocations (requestManager s) @ [fn]))))"
proof -
  let ?guard = "currentModel s \<noteq> None \<and>
                (\<exists>v. messageInput s = Some v \<and> (js_trim v \<noteq> [] \<or> attachedFile s \<noteq> None))"
  obtain s' ps where res: "sendMessage label s t_file t_text t_key = (s', ps)"
    by (cases "sendMessage label s t_file t_text t_key")
  have no: "\<not> ?guard \<longrightarrow> s' = s \<and> ps = None"
  proof
    assume "\<not> ?guard"
    then have "messageInput s = None \<or> currentModel s = None \<or> isLoading s \<or>
           (\<exists>v. messageInput s = Some v \<and> js_trim v = [] \<and> attachedFile s = None)"
      by (cases "messageInput s") auto
    from sendMessage_blocked [OF this, of label t_file t_text t_key] res
    show "s' = s \<and> ps = None" by simp
  qed
  have yes: "?guard \<longrightarrow>
                isLoading s' \<and> length (messages s) < length (messages s') \<and>
                (\<exists>p e fn. map_option awaited ps = Some p \<and>
                   activeRequests (requestManager s') (request_key e t_key) = Some p \<and>
                   (activeRequests (requestManager s) (request_key e t_key) = None \<longrightarrow>
                      invocations (requestManager s') = invocations (requestManager s) @ [fn]))"
  proof
    assume g: ?guard
    then obtain modelId v where m: "currentModel s = Some modelId" and i: "messageInput s = Some v"
      and t: "js_trim v \<noteq> [] \<or> attachedFile s \<noteq> None" by auto
    from sendMessage_passes [OF i m assms t, of label t_file t_text t_key] res
    obtain added e fn p rm' where
      s': "s' = s\<lparr>isLoading := True, sendBtn_disabled := True,
                messageIdCounter := messageIdCounter s + length added,
                messages := messages s @ added,
                messageInput := Some [], attachedFile := None,
                requestManager := rm'\<rparr>"
      and ps: "ps = Some \<lparr>awaited = p, sent_file = attachedFile s, sent_text = js_trim v\<rparr>"
      and added: "added \<noteq> []"
      and mk: "makeRequest (requestManager s) (request_key e t_key) fn None = (p, rm')"
      by auto
    from makeRequest_issue [OF mk]
    have a: "activeRequests rm' (request_key e t_key) = Some p"
      and b: "activeRequests (requestManager s) (request_key e t_key) = None \<longrightarrow>
              invocations rm' = invocations (requestManager s) @ [fn]" by simp_all
    have "isLoading s'" and "length (messages s) < length (messages s')"
      using added by (simp_all add: s')
    moreover have "map_option awaited ps = Some p \<and>
                   activeRequests (requestManager s') (request_key e t_key) = Some p \<and>
                   (activeRequests (requestManager s) (request_key e t_key) = None \<longrightarrow>
                      invocations (requestManager s') = invocations (requestManager s) @ [fn])"
      using a b by (simp add: s' ps)
    ultimately show "isLoading s' \<and> length (messages s) < length (messages s') \<and>
                (\<exists>p e fn. map_option awaited ps = Some p \<and>
                   activeRequests (requestManager s') (request_key e t_key) = Some p \<and>
                   (activeRequests (requestManager s) (request_key e t_key) = None \<longrightarrow>
                      invocations (requestManager s') = invocations (requestManager s) @ [fn]))"
      by (intro conjI exI [of _ p] exI [of _ e] exI [of _ fn]) simp_all
  qed
  from no yes show ?thesis
    by (simp only: Let_def res prod.case)
qed

theorem sendMessage_guard_witness:
  "isLoading (fst (sendMessage file_name
      ((new_MohanAIChatApp (Some ''hello'') ''conv_1'' None None)\<lparr>currentModel := Some ''llama''\<rparr>)
      1 2 3)) \<and>
   sendMessage file_name (new_MohanAIChatApp (Some ''hello'') ''conv_1'' None None) 1 2 3
     = (new_MohanAIChatApp (Some ''hello'') ''conv_1'' None None, None)"
proof -
  let ?fresh = "new_MohanAIChatApp (Some ''hello'') ''conv_1'' None None"
  let ?s = "?fresh\<lparr>currentModel := Some ''llama''\<rparr>"
  have idle: "\<not> isLoading ?s" and idle0: "\<not> isLoading ?fresh"
    by (simp_all add: new_MohanAIChatApp_def)
  have g: "currentModel ?s \<noteq> None \<and>
           (\<exists>v. messageInput ?s = Some v \<and> (js_trim v \<noteq> [] \<or> attachedFile ?s \<noteq> None))"
    by (simp add: new_MohanAIChatApp_def js_trim_hello)
  have ng: "\<not> (currentModel ?fresh \<noteq> None \<and>
           (\<exists>v. messageInput ?fresh = Some v \<and> (js_trim v \<noteq> [] \<or> attachedFile ?fresh \<noteq> None)))"
    by (simp add: new_MohanAIChatApp_def)
  have 1: "isLoading (fst (sendMessage file_name ?s 1 2 3))"
    using sendMessage_guard [OF idle, of file_name 1 2 3, unfolded Let_def] g
    by (cases "sendMessage file_name ?s 1 2 3") auto
  have 2: "sendMessage file_name ?fresh 1 2 3 = (?fresh, None)"
    using sendMessage_guard [OF idle0, of file_name 1 2 3, unfolded Let_def] ng
    by (cases "sendMessage file_name ?fresh 1 2 3") auto
  from 1 2 show ?thesis by blast
qed

text \<open>
  C3 as stated fails in both directions: with a model selected but no text and no
  file, \<open>sendMessage\<close> does nothing; and with text but no model selected it does
  nothing either.
\<close>

theorem sendMessage_guard_counterexample:
  "currentModel ((new_MohanAIChatApp (Some []) ''conv_1'' None None)\<lparr>currentModel := Some ''llama''\<rparr>)
     \<noteq> None \<and>
   \<not> isLoading ((new_MohanAIChatApp (Some []) ''conv_1'' None None)\<lparr>currentModel := Some ''llama''\<rparr>) \<and>
   sendMessage file_name
     ((new_MohanAIChatApp (Some []) ''conv_1'' None None)\<lparr>currentModel := Some ''llama''\<rparr>) 1 2 3
     = ((new_MohanAIChatApp (Some []) ''conv_1'' None None)\<lparr>currentModel := Some ''llama''\<rparr>, None) \<and>
   js_trim ''hello'' \<noteq> [] \<and>
   \<not> isLoading (new_MohanAIChatApp (Some ''hello'') ''conv_1'' None None) \<and>
   sendMessage file_name (new_MohanAIChatApp (Some ''hello'') ''conv_1'' None None) 1 2 3
     = (new_MohanAIChatApp (Some ''hello'') ''conv_1'' None None, None)"
  by (simp add: sendMessage_def new_MohanAIChatApp_def js_trim_def isWhiteSpace_def Let_def)

section \<open>Properties of the responses\<close>





lemma show_500: "Number_toString 500 = ''500''"
  by (simp add: Number_toString_def show_nat.simps [of 500] show_nat.simps [of 50]
      show_nat.simps [of 5] digit_char_def)




section \<open>Properties of a failed send\<close>

lemma sendMessage_catch_effect:
  "messages (sendMessage_catch s ps e) = messages s \<and>
   \<not> isLoading (sendMessage_catch s ps e) \<and>
   \<not> sendBtn_disabled (sendMessage_catch s ps e) \<and>
   messageIdCounter (sendMessage_catch s ps e) = messageIdCounter s \<and>
   requestManager (sendMessage_catch s ps e) = requestManager s"
  by (cases "messageInput s"; cases "sent_file ps")
     (simp_all add: sendMessage_catch_def sendMessage_finally_def showError_def hideLoading_def
        updateSendButton_def Let_def)






section \<open>The message of an attached file in the history\<close>

lemma js_trim_hi: "js_trim ''hi'' = ''hi''"
  by (simp add: js_trim_def isWhiteSpace_def)

lemma js_trim_Nil: "js_trim [] = []"
  by (simp add: js_trim_def)

lemma sendMessage_plain_invokes:
  assumes "messageInput st = Some v" and "currentModel st = Some modelId"
    and "\<not> isLoading st" and "attachedFile st = None" and "js_trim v \<noteq> []"
    and "activeRequests (requestManager st) (request_key Chat t_key) = None"
  shows "invocations (requestManager (fst (sendMessage label st t_file t_text t_key))) =
     invocations (requestManager st) @
       [ChatOp \<lparr>model_id = modelId, req_message = js_trim v, conversation_id = conversationId st,
          history = chat_history
            (messages st @ [new_message (messageIdCounter st + 1) ''user'' (js_trim v) t_text])\<rparr>]"
proof -
  let ?s4 = "(addMessage (st\<lparr>isLoading := True, sendBtn_disabled := True\<rparr>) ''user'' (js_trim v) t_text)
      \<lparr>messageInput := Some [], attachedFile := None\<rparr>"
  have load: "isLoading ?s4" by (simp add: addMessage_def Let_def)
  have send: "sendMessage label st t_file t_text t_key =
      (let (p, s5) = callChatAPI ?s4 modelId (js_trim v) t_key
       in (s5, Some \<lparr>awaited = p, sent_file = None, sent_text = js_trim v\<rparr>))"
    using assms by (simp add: sendMessage_def Let_def showLoading_loading [OF load])
  have rm4: "requestManager ?s4 = requestManager st" by (simp add: addMessage_def Let_def)
  have body: "chat_request_body ?s4 modelId (js_trim v) =
      \<lparr>model_id = modelId, req_message = js_trim v, conversation_id = conversationId st,
        history = chat_history
          (messages st @ [new_message (messageIdCounter st + 1) ''user'' (js_trim v) t_text])\<rparr>"
    by (simp add: chat_request_body_def addMessage_def Let_def)
  from makeRequest_fresh_invokes [OF assms(6)]
  show ?thesis
    unfolding send by (simp add: callChatAPI_def rm4 body Let_def split: prod.splits) (metis snd_conv)
qed

text \<open>
  C4 on a session with an attached file.  The user attaches \<open>report.pdf\<close> and
  sends it without text: \<open>sendMessage\<close> adds the message that stands for the file,
  with the type \<open>user\<close>.  The upload is answered with an error, and the user sends
  \<open>hi\<close>.  No message has the type \<open>file-attachment\<close>, the filter of
  \<open>callChatAPI\<close> removes nothing, and the history of the chat request holds the
  message that stands for the file, before the message being sent.
\<close>

theorem attachment_placeholder_sent_in_history:
  "map_option
     (\<lambda>s2. invocations (requestManager (fst (sendMessage label (on_input s2 ''hi'') 11 12 13))))
     (send_fails
        (fst (sendMessage label
           (on_file_chosen
              ((new_MohanAIChatApp (Some []) ''conv_1'' None None)\<lparr>currentModel := Some ''llama''\<rparr>)
              \<lparr>file_name = ''report.pdf'', file_size = 2048, file_type = ''application/pdf''\<rparr>)
           1 2 3))
        \<lparr>awaited = 0,
          sent_file = Some \<lparr>file_name = ''report.pdf'', file_size = 2048, file_type = ''application/pdf''\<rparr>,
          sent_text = []\<rparr>
        (Response 500 (Inr (JObj [(''detail'', JStr ''boom'')]))))
   = Some [UploadOp \<lparr>file_name = ''report.pdf'', file_size = 2048, file_type = ''application/pdf''\<rparr>
             [] ''llama'',
           ChatOp \<lparr>model_id = ''llama'', req_message = ''hi'', conversation_id = ''conv_1'',
             history =
               [\<lparr>role = ''user'',
                   entry_content = label \<lparr>file_name = ''report.pdf'', file_size = 2048,
                                          file_type = ''application/pdf''\<rparr>,
                   entry_timestamp = 1\<rparr>,
                \<lparr>role = ''user'', entry_content = ''hi'', entry_timestamp = 12\<rparr>]\<rparr>]"
proof -
  let ?f = "\<lparr>file_name = ''report.pdf'', file_size = 2048, file_type = ''application/pdf''\<rparr>"
  let ?s = "on_file_chosen
              ((new_MohanAIChatApp (Some []) ''conv_1'' None None)\<lparr>currentModel := Some ''llama''\<rparr>) ?f"
  let ?ps = "\<lparr>awaited = 0, sent_file = Some ?f, sent_text = []\<rparr>"
  let ?h = "Response 500 (Inr (JObj [(''detail'', JStr ''boom'')]))"
  let ?m = "new_message 1 ''user'' (label ?f) 1"
  let ?rm1 = "\<lparr>activeRequests = [request_key Upload 3 \<mapsto> 0],
      calls = [\<lparr>call_key = request_key Upload 3, call_fn = UploadOp ?f [] ''llama'',
                timeout_ms = CONFIG_API_timeout, timer_armed = True, aborted = False,
                outcome = None, finally_runs = 0\<rparr>],
      invocations = [UploadOp ?f [] ''llama'']\<rparr>"
  let ?base = "(new_MohanAIChatApp (Some []) ''conv_1'' None None)\<lparr>currentModel := Some ''llama''\<rparr>"
  let ?s1 = "?base\<lparr>isLoading := True, sendBtn_disabled := True, messageIdCounter := 1,
      messages := [?m], messageInput := Some [], attachedFile := None, requestManager := ?rm1\<rparr>"
  have send: "sendMessage label ?s 1 2 3 = (?s1, Some ?ps)"
    by (simp add: sendMessage_def on_file_chosen_def updateSendButton_def new_MohanAIChatApp_def
        js_trim_Nil Let_def addMessage_def showLoading_def callUploadAndChatAPI_def
        makeRequest_def new_RequestManager_def)
  have rej: "upload_requestFn ?h = Rejected (new_Error ''HTTP 500: boom'')"
    by (simp add: upload_requestFn_def res_ok_def not_ok_error_def get_prop_def show_500)
  have ex: "executeRequest (Rejected (new_Error ''HTTP 500: boom'')) =
      (Rejected (new_Error ''HTTP 500: boom'') :: jsval settled)"
    by (simp add: executeRequest_def new_Error_def)
  let ?rm2 = "operation_settles ?rm1 0 (Rejected (new_Error ''HTTP 500: boom''))"
  have fails: "send_fails ?s1 ?ps ?h =
      Some (sendMessage_catch (?s1\<lparr>requestManager := ?rm2\<rparr>) ?ps (new_Error ''HTTP 500: boom''))"
    by (simp add: send_fails_def Let_def rej ex operation_settles_def)
  let ?s2 = "sendMessage_catch (?s1\<lparr>requestManager := ?rm2\<rparr>) ?ps (new_Error ''HTTP 500: boom'')"
  have s2: "messages ?s2 = [?m]" "\<not> isLoading ?s2" "messageIdCounter ?s2 = 1"
      "requestManager ?s2 = ?rm2"
    by (simp_all add: sendMessage_catch_effect)
  have s2': "messageInput ?s2 = Some []" "currentModel ?s2 = Some ''llama''" "attachedFile ?s2 = None"
      "conversationId ?s2 = ''conv_1''"
    by (simp_all add: sendMessage_catch_def sendMessage_finally_def showError_def hideLoading_def
        updateSendButton_def Let_def new_MohanAIChatApp_def)
  have rm2: "activeRequests ?rm2 (request_key Chat 13) = None" "invocations ?rm2 = [UploadOp ?f [] ''llama'']"
    by (simp_all add: operation_settles_def Let_def request_key_eq_iff)
  let ?s3 = "on_input ?s2 ''hi''"
  have s3: "messageInput ?s3 = Some ''hi''" "currentModel ?s3 = Some ''llama''" "\<not> isLoading ?s3"
      "attachedFile ?s3 = None" "messages ?s3 = [?m]" "requestManager ?s3 = ?rm2"
      "conversationId ?s3 = ''conv_1''" "messageIdCounter ?s3 = 1"
    using s2 s2' by (simp_all add: on_input_def updateSendButton_def)
  have second: "invocations (requestManager (fst (sendMessage label ?s3 11 12 13))) =
      [UploadOp ?f [] ''llama'',
       ChatOp \<lparr>model_id = ''llama'', req_message = ''hi'', conversation_id = ''conv_1'',
         history = chat_history [?m, new_message 2 ''user'' ''hi'' 12]\<rparr>]"
  proof -
    have fresh: "activeRequests (requestManager ?s3) (request_key Chat 13) = None"
      using s3(6) rm2(1) by simp
    have ne: "js_trim ''hi'' \<noteq> []" by (simp add: js_trim_hi)
    note eq = sendMessage_plain_invokes [OF s3(1) s3(2) s3(3) s3(4) ne fresh, of label 11 12]
    show ?thesis
      unfolding eq s3 rm2 js_trim_hi by (simp add: numeral_2_eq_2)
  qed
  have hist: "chat_history [?m, new_message 2 ''user'' ''hi'' 12] =
      [\<lparr>role = ''user'', entry_content = label ?f, entry_timestamp = 1\<rparr>,
       \<lparr>role = ''user'', entry_content = ''hi'', entry_timestamp = 12\<rparr>]"
    by (simp add: chat_history_def js_slice_def is_file_attachment_def history_entry_of_def
        new_message_def Let_def)
  show ?thesis
    unfolding send fst_conv fails option.map second hist by (rule refl)
qed

section \<open>Properties of the message ids\<close>

lemma ids_increasing_new: "ids_increasing (new_MohanAIChatApp input conv savedModel savedMessages)"
  by (simp add: ids_increasing_def new_MohanAIChatApp_def)

lemma ids_increasing_addMessage:
  assumes "ids_increasing s"
  shows "ids_increasing (addMessage s type text now)"
  using assms
  by (fastforce simp: ids_increasing_def addMessage_def new_message_def Let_def sorted_wrt_append)

lemma present_msg_id: "msg_id (target (present messageId type text now)) = messageId"
  by (simp add: present_def typeWriter_def new_message_def)

lemma ids_increasing_streamMessage:
  assumes "ids_increasing s"
  shows "ids_increasing (fst (streamMessage s type text now))"
  using assms
  by (fastforce simp: ids_increasing_def streamMessage_def present_msg_id Let_def sorted_wrt_append)

lemma ids_increasing_clearChat: "ids_increasing (clearChat s)"
  by (simp add: ids_increasing_def clearChat_def saveState_def replace_messages_def)

text \<open>
  C8 on a restored session.  A page load whose store holds the two messages of an
  earlier session, with the ids 1 and 2: the constructor sets the counter to 0,
  \<open>loadSavedState\<close> restores the messages and leaves the counter, and the next
  message that is sent gets the id 1 again.
\<close>

theorem restored_session_reuses_message_id:
  "map msg_id (messages (fst (sendMessage file_name
      ((loadSavedState (new_MohanAIChatApp (Some ''hi'') ''conv_2'' None
          (Some (Stored [new_message 1 ''user'' ''hello'' 10, new_message 2 ''ai'' ''Hello!'' 20]))))
        \<lparr>currentModel := Some ''llama''\<rparr>)
      30 31 32)))
   = [1, 2, 1]"
proof -
  have t: "js_trim ''hi'' = ''hi''"
    by (simp add: js_trim_def isWhiteSpace_def)
  show ?thesis
    by (simp add: sendMessage_def loadSavedState_def replace_messages_def
        new_MohanAIChatApp_def t Let_def addMessage_def new_message_def showLoading_def
        callChatAPI_def split: prod.splits)
qed

end
